theory Spec2Isabelle
  imports Main "HOL-Library.Char_ord" "HOL-Library.List_Lexorder"
begin

text \<open>
  A model of \<^verbatim>\<open>utils/storage.ts\<close>, the storage module of the church website: the
  image URL transform, the IndexedDB cache of the event records with its
  \<^verbatim>\<open>localStorage\<close> mirror, the migration from the mirror, and the functions that
  synchronise the cache with the remote API. Pure functions are HOL functions; the
  functions that read or write the browser's stores take the state of the browser and
  return it with their result; an exception is a result \<open>Inl e\<close>.
\<close>

section \<open>Errors\<close>

text \<open>
  Every exception the storage module can raise is a value. \<open>TypeError\<close>, \<open>SyntaxError\<close>
  and \<open>URIError\<close> are the JavaScript built-in errors; \<open>DataError\<close> is what
  \<^verbatim>\<open>IDBObjectStore.put\<close> throws for a record without a valid key; \<open>OpenError\<close>,
  \<open>TransactionError\<close> and \<open>RequestError\<close> are the three ways an IndexedDB
  operation fails (opening the database, creating a transaction, a request's
  \<^verbatim>\<open>onerror\<close>); \<open>NetworkError\<close> is a rejected \<^verbatim>\<open>fetch\<close>, and
  \<open>ServerError\<close> is the \<^verbatim>\<open>new Error('Failed to ... on server')\<close> the sync
  functions throw on a response that is not ok.
\<close>

datatype js_error =
    TypeError | SyntaxError | URIError
  | DataError | OpenError | TransactionError | RequestError
  | NetworkError | ServerError

section \<open>JavaScript strings\<close>

text \<open>
  A JavaScript string is modelled by the bytes of its UTF-8 encoding. \<open>startsWith\<close>,
  \<open>str_includes\<close> (\<^verbatim>\<open>String.prototype.includes\<close>), \<open>split\<close> and \<open>join\<close>
  are the string methods the module calls.
\<close>

fun startsWith :: "string \<Rightarrow> string \<Rightarrow> bool" where
  "startsWith s [] = True"
| "startsWith [] (p # ps) = False"
| "startsWith (c # cs) (p # ps) = (c = p \<and> startsWith cs ps)"

fun str_includes :: "string \<Rightarrow> string \<Rightarrow> bool" where
  "str_includes [] sub = (sub = [])"
| "str_includes (c # cs) sub = (startsWith (c # cs) sub \<or> str_includes cs sub)"

fun split_at :: "string \<Rightarrow> string \<Rightarrow> string \<Rightarrow> string list" where
  "split_at sep acc [] = [rev acc]"
| "split_at sep acc (c # cs) =
     (if startsWith (c # cs) sep
      then rev acc # split_at sep [] (drop (length sep - 1) cs)
      else split_at sep (c # acc) cs)"

definition split :: "string \<Rightarrow> string \<Rightarrow> string list" where
  "split s sep = (if sep = [] then map (\<lambda>c. [c]) s else split_at sep [] s)"

fun join :: "string list \<Rightarrow> string \<Rightarrow> string" where
  "join [] sep = []"
| "join [x] sep = x"
| "join (x # y # ys) sep = x @ sep @ join (y # ys) sep"

text \<open>
  \<^verbatim>\<open>Number.prototype.toString\<close> on an integral number of magnitude below \<open>10^21\<close>
  prints its decimal digits; the numeric options are such integers.
\<close>

fun string_of_nat :: "nat \<Rightarrow> string" where
  "string_of_nat n =
     (if n < 10 then [''0123456789'' ! n]
      else string_of_nat (n div 10) @ [''0123456789'' ! (n mod 10)])"

definition number_toString :: "int \<Rightarrow> string" where
  "number_toString i =
     (if i < 0 then CHR ''-'' # string_of_nat (nat (- i)) else string_of_nat (nat i))"

subsection \<open>decodeURIComponent and encodeURIComponent\<close>

text \<open>
  \<^verbatim>\<open>decodeURIComponent\<close> replaces every escape \<^verbatim>\<open>%XX\<close> by the octet it
  denotes and throws \<open>URIError\<close> on an escape that is cut short, is not hexadecimal,
  or starts a multi-octet sequence that is not the UTF-8 encoding of a code point.
  \<open>pct_sequence\<close> reads the whole escape sequence at the head of the string.
\<close>

definition hex_val :: "char \<Rightarrow> nat option" where
  "hex_val c =
     (let n = (of_char c :: nat) in
      if 48 \<le> n \<and> n \<le> 57 then Some (n - 48)
      else if 65 \<le> n \<and> n \<le> 70 then Some (n - 55)
      else if 97 \<le> n \<and> n \<le> 102 then Some (n - 87)
      else None)"

fun pct_octet :: "string \<Rightarrow> nat option" where
  "pct_octet (p # h1 # h2 # rest) =
     (if p = CHR ''%'' then
        (case (hex_val h1, hex_val h2) of
           (Some a, Some b) \<Rightarrow> Some (16 * a + b)
         | _ \<Rightarrow> None)
      else None)"
| "pct_octet _ = None"

fun pct_octets :: "nat \<Rightarrow> string \<Rightarrow> nat list option" where
  "pct_octets 0 s = Some []"
| "pct_octets (Suc n) s =
     (case pct_octet s of
        None \<Rightarrow> None
      | Some b \<Rightarrow> (case pct_octets n (drop 3 s) of
                    None \<Rightarrow> None
                  | Some bs \<Rightarrow> Some (b # bs)))"

fun valid_utf8 :: "nat list \<Rightarrow> bool" where
  "valid_utf8 [b] = (b < 128)"
| "valid_utf8 [b, b1] =
     (192 \<le> b \<and> b < 224 \<and> b1 div 64 = 2 \<and> 128 \<le> (b mod 32) * 64 + b1 mod 64)"
| "valid_utf8 [b, b1, b2] =
     (224 \<le> b \<and> b < 240 \<and> b1 div 64 = 2 \<and> b2 div 64 = 2 \<and>
      (let cp = (b mod 16) * 4096 + (b1 mod 64) * 64 + b2 mod 64
       in 2048 \<le> cp \<and> \<not> (55296 \<le> cp \<and> cp \<le> 57343)))"
| "valid_utf8 [b, b1, b2, b3] =
     (240 \<le> b \<and> b < 248 \<and> b1 div 64 = 2 \<and> b2 div 64 = 2 \<and> b3 div 64 = 2 \<and>
      (let cp = (b mod 8) * 262144 + (b1 mod 64) * 4096 + (b2 mod 64) * 64 + b3 mod 64
       in 65536 \<le> cp \<and> cp \<le> 1114111))"
| "valid_utf8 _ = False"

definition leading_ones :: "nat \<Rightarrow> nat" where
  "leading_ones b =
     (if b < 128 then 0 else if b < 192 then 1 else if b < 224 then 2
      else if b < 240 then 3 else if b < 248 then 4 else 5)"

definition pct_sequence :: "string \<Rightarrow> nat list option" where
  "pct_sequence s =
     (case pct_octet s of
        None \<Rightarrow> None
      | Some b \<Rightarrow>
          (let n = leading_ones b in
           if n = 0 then Some [b]
           else if n = 1 \<or> n > 4 then None
           else (case pct_octets (n - 1) (drop 3 s) of
                   None \<Rightarrow> None
                 | Some bs \<Rightarrow> if valid_utf8 (b # bs) then Some (b # bs) else None)))"

fun decodeURIComponent :: "string \<Rightarrow> js_error + string" where
  "decodeURIComponent [] = Inr []"
| "decodeURIComponent (c # cs) =
     (if c \<noteq> CHR ''%'' then
        (case decodeURIComponent cs of Inl e \<Rightarrow> Inl e | Inr r \<Rightarrow> Inr (c # r))
      else
        (case pct_sequence (c # cs) of
           None \<Rightarrow> Inl URIError
         | Some octets \<Rightarrow>
             (case decodeURIComponent (drop (3 * length octets - 1) cs) of
                Inl e \<Rightarrow> Inl e
              | Inr r \<Rightarrow> Inr (map char_of octets @ r))))"

text \<open>
  \<^verbatim>\<open>encodeURIComponent\<close> keeps letters, digits and \<^verbatim>\<open>- _ . ! ~ * ' ( )\<close>, and
  escapes every other octet of the UTF-8 encoding.
\<close>

definition uri_unreserved :: "char \<Rightarrow> bool" where
  "uri_unreserved c =
     (let n = (of_char c :: nat) in
      (65 \<le> n \<and> n \<le> 90) \<or> (97 \<le> n \<and> n \<le> 122) \<or> (48 \<le> n \<and> n \<le> 57) \<or>
      n \<in> {45, 95, 46, 33, 126, 42, 39, 40, 41})"

definition pct_encode :: "char \<Rightarrow> string" where
  "pct_encode c =
     (let n = (of_char c :: nat) in
      [CHR ''%'', ''0123456789ABCDEF'' ! (n div 16), ''0123456789ABCDEF'' ! (n mod 16)])"

definition encodeURIComponent :: "string \<Rightarrow> string" where
  "encodeURIComponent s = concat (map (\<lambda>c. if uri_unreserved c then [c] else pct_encode c) s)"

text \<open>
  \<^verbatim>\<open>URLSearchParams.prototype.toString\<close>: the
  \<^verbatim>\<open>application/x-www-form-urlencoded\<close> serialisation of the appended pairs.
\<close>

definition form_unreserved :: "char \<Rightarrow> bool" where
  "form_unreserved c =
     (let n = (of_char c :: nat) in
      (65 \<le> n \<and> n \<le> 90) \<or> (97 \<le> n \<and> n \<le> 122) \<or> (48 \<le> n \<and> n \<le> 57) \<or>
      n \<in> {42, 45, 46, 95})"

definition form_encode :: "string \<Rightarrow> string" where
  "form_encode s =
     concat (map (\<lambda>c. if c = CHR '' '' then ''+''
                      else if form_unreserved c then [c] else pct_encode c) s)"

definition params_toString :: "(string \<times> string) list \<Rightarrow> string" where
  "params_toString ps = join (map (\<lambda>(k, v). form_encode k @ ''='' @ form_encode v) ps) ''&''"

section \<open>Image URL transform (getOptimizedImageUrl)\<close>

datatype image_format = Webp | Avif | Jpg | Png

datatype resize_mode = Cover | Contain | Fill

fun format_string :: "image_format \<Rightarrow> string" where
  "format_string Webp = ''webp''"
| "format_string Avif = ''avif''"
| "format_string Jpg = ''jpg''"
| "format_string Png = ''png''"

fun resize_string :: "resize_mode \<Rightarrow> string" where
  "resize_string Cover = ''cover''"
| "resize_string Contain = ''contain''"
| "resize_string Fill = ''fill''"

record ImageTransformOptions =
  width :: "int option"
  height :: "int option"
  quality :: "int option"
  format :: "image_format option"
  resize :: "resize_mode option"

text \<open>
  \<^verbatim>\<open>if (options.width) params.append('width', options.width.toString())\<close>: a number
  is appended when it is present and not zero, a format or resize mode when it is present
  (its string is never empty).
\<close>

definition number_param :: "string \<Rightarrow> int option \<Rightarrow> (string \<times> string) list" where
  "number_param name v =
     (case v of None \<Rightarrow> [] | Some n \<Rightarrow> if n = 0 then [] else [(name, number_toString n)])"

definition string_param :: "string \<Rightarrow> string option \<Rightarrow> (string \<times> string) list" where
  "string_param name v = (case v of None \<Rightarrow> [] | Some s \<Rightarrow> [(name, s)])"

definition build_params :: "ImageTransformOptions \<Rightarrow> (string \<times> string) list" where
  "build_params options =
     number_param ''width'' (width options) @
     number_param ''height'' (height options) @
     number_param ''quality'' (quality options) @
     string_param ''format'' (map_option format_string (format options)) @
     string_param ''resize'' (map_option resize_string (resize options))"

text \<open>\<^verbatim>\<open>encodeURIComponent(decodeURIComponent(p))\<close>, for one segment and for a list
  of segments in order (the first exception ends the call).\<close>

definition reencode :: "string \<Rightarrow> js_error + string" where
  "reencode p =
     (case decodeURIComponent p of Inl e \<Rightarrow> Inl e | Inr d \<Rightarrow> Inr (encodeURIComponent d))"

fun reencode_all :: "string list \<Rightarrow> js_error + string list" where
  "reencode_all [] = Inr []"
| "reencode_all (p # ps) =
     (case reencode p of
        Inl e \<Rightarrow> Inl e
      | Inr q \<Rightarrow> (case reencode_all ps of Inl e \<Rightarrow> Inl e | Inr qs \<Rightarrow> Inr (q # qs)))"

text \<open>The part of the function after the url has been split at the object path: bucket
  and path are re-encoded, the render url is built, the query string is appended when it
  is not empty.\<close>

definition render_url ::
  "string \<Rightarrow> string \<Rightarrow> string list \<Rightarrow> ImageTransformOptions \<Rightarrow> js_error + string" where
  "render_url baseUrl bucketRaw pathPartsRaw options =
     (case reencode bucketRaw of
        Inl e \<Rightarrow> Inl e
      | Inr bucket \<Rightarrow>
          (case reencode_all pathPartsRaw of
             Inl e \<Rightarrow> Inl e
           | Inr parts \<Rightarrow>
               (let path = join parts ''/'';
                    transformUrl = baseUrl @ ''/storage/v1/render/image/public/'' @ bucket @ ''/'' @ path;
                    queryString = params_toString (build_params options)
                in Inr (if queryString \<noteq> [] then transformUrl @ ''?'' @ queryString
                        else transformUrl))))"

text \<open>
  The url is \<^verbatim>\<open>string | undefined\<close>: \<open>None\<close> is \<^verbatim>\<open>undefined\<close>. An array
  destructuring of an empty array binds \<^verbatim>\<open>undefined\<close>, which
  \<^verbatim>\<open>decodeURIComponent\<close> turns into the string \<^verbatim>\<open>undefined\<close>.
\<close>

definition getOptimizedImageUrl ::
  "string option \<Rightarrow> ImageTransformOptions \<Rightarrow> js_error + string" where
  "getOptimizedImageUrl url options =
     (case url of
        None \<Rightarrow> Inr []
      | Some u \<Rightarrow>
          if u = [] then Inr []
          else if startsWith u ''data:'' then Inr u
          else if \<not> str_includes u ''.supabase.co/storage/v1/object/public/'' then Inr u
          else
            (case split u ''/storage/v1/object/public/'' of
               baseUrl # rest # _ \<Rightarrow>
                 (case split rest ''/'' of
                    [] \<Rightarrow> render_url baseUrl ''undefined'' [] options
                  | bucketRaw # pathPartsRaw \<Rightarrow> render_url baseUrl bucketRaw pathPartsRaw options)
             | _ \<Rightarrow> Inr u))"

section \<open>JavaScript values\<close>

text \<open>
  The events are \<^verbatim>\<open>any\<close> in the source: a value is \<^verbatim>\<open>undefined\<close>,
  \<^verbatim>\<open>null\<close>, a boolean, a number (integral here), a string, an array or a plain
  object. An object is the list of its own properties in insertion order; the property
  names of a well-formed object are pairwise different.
\<close>

datatype jsval =
    JUndefined | JNull | JBool bool | JNum int | JStr string
  | JArr "jsval list" | JObj "(string \<times> jsval) list"

text \<open>
  \<open>obj_get\<close> reads a property (\<^verbatim>\<open>undefined\<close> when it is absent), \<open>obj_set\<close>
  defines one (an existing property keeps its place), and \<open>spread_into target src\<close> is
  the object literal \<^verbatim>\<open>{ ...target, ...src }\<close>: the properties of \<open>src\<close> are
  defined one after the other on a copy of \<open>target\<close>. JavaScript enumerates
  integer-like property names before the others; the list keeps the order of definition,
  and the properties below read properties by name.
\<close>

definition obj_get :: "(string \<times> jsval) list \<Rightarrow> string \<Rightarrow> jsval" where
  "obj_get ps k = (case map_of ps k of None \<Rightarrow> JUndefined | Some v \<Rightarrow> v)"

fun obj_set :: "string \<Rightarrow> jsval \<Rightarrow> (string \<times> jsval) list \<Rightarrow> (string \<times> jsval) list" where
  "obj_set k v [] = [(k, v)]"
| "obj_set k v (p # ps) = (if fst p = k then (k, v) # ps else p # obj_set k v ps)"

definition spread_into :: "(string \<times> jsval) list \<Rightarrow> (string \<times> jsval) list \<Rightarrow> (string \<times> jsval) list" where
  "spread_into target src = fold (\<lambda>p acc. obj_set (fst p) (snd p) acc) src target"

text \<open>
  \<open>get_prop v k\<close> is the member access \<^verbatim>\<open>v.k\<close> for the property names the
  module reads (\<^verbatim>\<open>id\<close>, \<^verbatim>\<open>media\<close>, \<^verbatim>\<open>image\<close>, \<^verbatim>\<open>url\<close>,
  \<^verbatim>\<open>events\<close>, \<^verbatim>\<open>event\<close>): a \<open>TypeError\<close> on \<^verbatim>\<open>undefined\<close> and
  \<^verbatim>\<open>null\<close>, \<^verbatim>\<open>undefined\<close> on a primitive or an array.
\<close>

fun get_prop :: "jsval \<Rightarrow> string \<Rightarrow> js_error + jsval" where
  "get_prop JUndefined k = Inl TypeError"
| "get_prop JNull k = Inl TypeError"
| "get_prop (JObj ps) k = Inr (obj_get ps k)"
| "get_prop v k = Inr JUndefined"

fun truthy :: "jsval \<Rightarrow> bool" where
  "truthy JUndefined = False"
| "truthy JNull = False"
| "truthy (JBool b) = b"
| "truthy (JNum n) = (n \<noteq> 0)"
| "truthy (JStr s) = (s \<noteq> [])"
| "truthy v = True"

text \<open>
  \<open>spread_props v\<close> lists the own enumerable properties that \<^verbatim>\<open>...v\<close> copies in
  an object literal; \<open>js_iterate v\<close> lists what \<^verbatim>\<open>for (const x of v)\<close> and
  \<^verbatim>\<open>[...v]\<close> enumerate, a \<open>TypeError\<close> when \<open>v\<close> is not iterable. A string
  enumerates its characters (here its octets).
\<close>

fun spread_props :: "jsval \<Rightarrow> (string \<times> jsval) list" where
  "spread_props (JObj ps) = ps"
| "spread_props (JArr xs) = zip (map string_of_nat [0..<length xs]) xs"
| "spread_props (JStr s) = zip (map string_of_nat [0..<length s]) (map (\<lambda>c. JStr [c]) s)"
| "spread_props v = []"

fun js_iterate :: "jsval \<Rightarrow> js_error + jsval list" where
  "js_iterate (JArr xs) = Inr xs"
| "js_iterate (JStr s) = Inr (map (\<lambda>c. JStr [c]) s)"
| "js_iterate v = Inl TypeError"

subsection \<open>JSON text\<close>

text \<open>
  The text kept in \<^verbatim>\<open>localStorage\<close> is represented by the value it denotes:
  \<open>JsonText v\<close> is a text that \<^verbatim>\<open>JSON.parse\<close> reads as \<open>v\<close>, \<open>Malformed\<close> a
  text that \<^verbatim>\<open>JSON.parse\<close> rejects, \<open>EmptyText\<close> the empty string (rejected
  too, and falsy). \<^verbatim>\<open>JSON.stringify\<close> writes the text that denotes \<open>to_json v\<close>:
  a property whose value is \<^verbatim>\<open>undefined\<close> is left out, an \<^verbatim>\<open>undefined\<close>
  array element becomes \<^verbatim>\<open>null\<close>.
\<close>

fun to_json :: "jsval \<Rightarrow> jsval" where
  "to_json JUndefined = JNull"
| "to_json (JArr xs) = JArr (map to_json xs)"
| "to_json (JObj ps) =
     JObj (map (\<lambda>p. (fst p, to_json (snd p))) (filter (\<lambda>p. snd p \<noteq> JUndefined) ps))"
| "to_json v = v"

datatype stored_text = EmptyText | Malformed | JsonText jsval

fun JSON_parse :: "stored_text \<Rightarrow> js_error + jsval" where
  "JSON_parse (JsonText v) = Inr v"
| "JSON_parse t = Inl SyntaxError"

definition JSON_stringify :: "jsval \<Rightarrow> stored_text" where
  "JSON_stringify v = JsonText (to_json v)"

section \<open>The IndexedDB object store\<close>

text \<open>
  The object store \<^verbatim>\<open>events\<close> is created with \<^verbatim>\<open>keyPath: 'id'\<close>. A valid key
  is a number, a string or an array of valid keys; \<open>extract_key\<close> evaluates the key
  path on a record, and fails on a value that is not an object or whose \<^verbatim>\<open>id\<close> is
  not a valid key. The store holds its records in key order (numbers before strings
  before arrays), which is the order \<^verbatim>\<open>getAll\<close> returns them in; \<open>store_put\<close>
  replaces the record under an existing key. Strings are compared octet by octet, which
  is IndexedDB's order by code units as long as no id has a character beyond the Basic
  Multilingual Plane; the properties below do not depend on the order.
\<close>

datatype idb_key = KNum int | KStr string | KArr "idb_key list"

fun key_of_value :: "jsval \<Rightarrow> idb_key option" where
  "key_of_value (JNum n) = Some (KNum n)"
| "key_of_value (JStr s) = Some (KStr s)"
| "key_of_value (JArr vs) =
     (let ks = map key_of_value vs
      in if list_all (\<lambda>k. k \<noteq> None) ks then Some (KArr (map the ks)) else None)"
| "key_of_value v = None"

fun extract_key :: "jsval \<Rightarrow> idb_key option" where
  "extract_key (JObj ps) = key_of_value (obj_get ps ''id'')"
| "extract_key v = None"

fun key_less :: "idb_key \<Rightarrow> idb_key \<Rightarrow> bool"
  and keys_less :: "idb_key list \<Rightarrow> idb_key list \<Rightarrow> bool" where
  "key_less (KNum a) (KNum b) = (a < b)"
| "key_less (KNum a) (KStr b) = True"
| "key_less (KNum a) (KArr b) = True"
| "key_less (KStr a) (KNum b) = False"
| "key_less (KStr a) (KStr b) = (a < b)"
| "key_less (KStr a) (KArr b) = True"
| "key_less (KArr a) (KNum b) = False"
| "key_less (KArr a) (KStr b) = False"
| "key_less (KArr a) (KArr b) = keys_less a b"
| "keys_less [] [] = False"
| "keys_less [] (y # ys) = True"
| "keys_less (x # xs) [] = False"
| "keys_less (x # xs) (y # ys) = (key_less x y \<or> (x = y \<and> keys_less xs ys))"

type_synonym object_store = "(idb_key \<times> jsval) list"

fun store_put :: "idb_key \<Rightarrow> jsval \<Rightarrow> object_store \<Rightarrow> object_store" where
  "store_put k v [] = [(k, v)]"
| "store_put k v (p # ps) =
     (if fst p = k then (k, v) # ps
      else if key_less k (fst p) then (k, v) # p # ps
      else p # store_put k v ps)"

definition store_delete :: "idb_key \<Rightarrow> object_store \<Rightarrow> object_store" where
  "store_delete k s = filter (\<lambda>p. fst p \<noteq> k) s"

definition store_getAll :: "object_store \<Rightarrow> jsval list" where
  "store_getAll s = map snd s"

section \<open>The browser state\<close>

text \<open>
  \<open>db\<close> is the module variable \<^verbatim>\<open>db\<close> (an open handle is cached);
  \<open>events_store\<close> is the content of the object store; \<open>churchEvents\<close> is
  \<^verbatim>\<open>localStorage.getItem('churchEvents')\<close> (\<open>None\<close> for \<^verbatim>\<open>null\<close>). The three
  flags say how IndexedDB behaves: whether \<^verbatim>\<open>indexedDB.open\<close> succeeds, whether
  \<^verbatim>\<open>database.transaction\<close> returns, and whether requests succeed (a failed
  request aborts its transaction, so nothing it did is kept). They are part of the state:
  a fault lasts for the calls made in it. Reading and writing \<^verbatim>\<open>localStorage\<close>
  succeed.
\<close>

record browser =
  db :: bool
  open_ok :: bool
  tx_ok :: bool
  req_ok :: bool
  events_store :: object_store
  churchEvents :: "stored_text option"

definition initDB :: "browser \<Rightarrow> js_error + browser" where
  "initDB st =
     (if db st then Inr st
      else if open_ok st then Inr (st\<lparr>db := True\<rparr>)
      else Inl OpenError)"

section \<open>The local stores (getAllEvents, saveAllEvents, deleteEvent)\<close>

text \<open>
  \<open>legacy_read\<close> is the catch block of \<^verbatim>\<open>getAllEvents\<close>:
  \<^verbatim>\<open>stored ? JSON.parse(stored) : []\<close>. In \<^verbatim>\<open>getAllEvents\<close> the promise of the
  \<^verbatim>\<open>getAll\<close> request is returned, not awaited, inside the \<^verbatim>\<open>try\<close>: its
  rejection reaches the caller and the catch block does not run.
\<close>

definition legacy_read :: "browser \<Rightarrow> js_error + jsval" where
  "legacy_read st =
     (case churchEvents st of
        None \<Rightarrow> Inr (JArr [])
      | Some EmptyText \<Rightarrow> Inr (JArr [])
      | Some stored \<Rightarrow> JSON_parse stored)"

definition getAllEvents :: "browser \<Rightarrow> (js_error + jsval) \<times> browser" where
  "getAllEvents st =
     (case initDB st of
        Inl e \<Rightarrow> (legacy_read st, st)
      | Inr st1 \<Rightarrow>
          if \<not> tx_ok st1 then (legacy_read st1, st1)
          else if \<not> req_ok st1 then (Inl RequestError, st1)
          else (Inr (JArr (store_getAll (events_store st1))), st1))"

text \<open>
  The loop \<^verbatim>\<open>for (const event of events) await ... store.put(event)\<close>.
  \<^verbatim>\<open>put\<close> throws \<open>DataError\<close> on a record without a valid key; the records put
  before it stay in the transaction, which commits.
\<close>

fun put_all :: "jsval list \<Rightarrow> object_store \<Rightarrow> (js_error + unit) \<times> object_store" where
  "put_all [] s = (Inr (), s)"
| "put_all (e # es) s =
     (case extract_key e of
        None \<Rightarrow> (Inl DataError, s)
      | Some k \<Rightarrow> put_all es (store_put k e s))"

text \<open>
  The copy for \<^verbatim>\<open>localStorage\<close>:
  \<^verbatim>\<open>{ ...e, media: e.media?.filter(m => !m.url.startsWith('data:')) || [],
     image: e.image?.startsWith('data:') ? '' : e.image }\<close>.
  Calling \<^verbatim>\<open>filter\<close> or \<^verbatim>\<open>startsWith\<close> on a value that has no such method
  is a \<open>TypeError\<close>.
\<close>

definition keep_media :: "jsval \<Rightarrow> js_error + bool" where
  "keep_media m =
     (case get_prop m ''url'' of
        Inl e \<Rightarrow> Inl e
      | Inr (JStr s) \<Rightarrow> Inr (\<not> startsWith s ''data:'')
      | Inr _ \<Rightarrow> Inl TypeError)"

fun filter_media :: "jsval list \<Rightarrow> js_error + jsval list" where
  "filter_media [] = Inr []"
| "filter_media (m # ms) =
     (case keep_media m of
        Inl e \<Rightarrow> Inl e
      | Inr keep \<Rightarrow>
          (case filter_media ms of
             Inl e \<Rightarrow> Inl e
           | Inr r \<Rightarrow> Inr (if keep then m # r else r)))"

definition light_media :: "jsval \<Rightarrow> js_error + jsval" where
  "light_media e =
     (case get_prop e ''media'' of
        Inl err \<Rightarrow> Inl err
      | Inr JUndefined \<Rightarrow> Inr (JArr [])
      | Inr JNull \<Rightarrow> Inr (JArr [])
      | Inr (JArr ms) \<Rightarrow> (case filter_media ms of Inl err \<Rightarrow> Inl err | Inr r \<Rightarrow> Inr (JArr r))
      | Inr _ \<Rightarrow> Inl TypeError)"

definition light_image :: "jsval \<Rightarrow> js_error + jsval" where
  "light_image e =
     (case get_prop e ''image'' of
        Inl err \<Rightarrow> Inl err
      | Inr JUndefined \<Rightarrow> Inr JUndefined
      | Inr JNull \<Rightarrow> Inr JNull
      | Inr (JStr s) \<Rightarrow> Inr (if startsWith s ''data:'' then JStr [] else JStr s)
      | Inr _ \<Rightarrow> Inl TypeError)"

definition lightweight_event :: "jsval \<Rightarrow> js_error + jsval" where
  "lightweight_event e =
     (case light_media e of
        Inl err \<Rightarrow> Inl err
      | Inr med \<Rightarrow>
          (case light_image e of
             Inl err \<Rightarrow> Inl err
           | Inr img \<Rightarrow>
               Inr (JObj (obj_set ''image'' img
                           (obj_set ''media'' med (spread_into [] (spread_props e)))))))"

fun lightweight_all :: "jsval list \<Rightarrow> js_error + jsval list" where
  "lightweight_all [] = Inr []"
| "lightweight_all (e # es) =
     (case lightweight_event e of
        Inl err \<Rightarrow> Inl err
      | Inr l \<Rightarrow> (case lightweight_all es of Inl err \<Rightarrow> Inl err | Inr ls \<Rightarrow> Inr (l # ls)))"

fun lightweightEvents :: "jsval \<Rightarrow> js_error + jsval" where
  "lightweightEvents (JArr es) =
     (case lightweight_all es of Inl err \<Rightarrow> Inl err | Inr ls \<Rightarrow> Inr (JArr ls))"
| "lightweightEvents v = Inl TypeError"

definition saveAllEvents :: "jsval \<Rightarrow> browser \<Rightarrow> (js_error + unit) \<times> browser" where
  "saveAllEvents events st =
     (case initDB st of
        Inl e \<Rightarrow> (Inl e, st)
      | Inr st1 \<Rightarrow>
          if \<not> tx_ok st1 then (Inl TransactionError, st1)
          else if \<not> req_ok st1 then (Inl RequestError, st1)
          else
            (case js_iterate events of
               Inl e \<Rightarrow> (Inl e, st1\<lparr>events_store := []\<rparr>)
             | Inr es \<Rightarrow>
                 (case put_all es [] of
                    (Inl e, s) \<Rightarrow> (Inl e, st1\<lparr>events_store := s\<rparr>)
                  | (Inr u, s) \<Rightarrow>
                      (case lightweightEvents events of
                         Inl e \<Rightarrow> (Inl e, st1\<lparr>events_store := s\<rparr>)
                       | Inr lw \<Rightarrow>
                           (Inr (), st1\<lparr>events_store := s,
                                        churchEvents := Some (JSON_stringify lw)\<rparr>)))))"

definition deleteEvent :: "string \<Rightarrow> browser \<Rightarrow> (js_error + unit) \<times> browser" where
  "deleteEvent eventId st =
     (case initDB st of
        Inl e \<Rightarrow> (Inl e, st)
      | Inr st1 \<Rightarrow>
          if \<not> tx_ok st1 then (Inl TransactionError, st1)
          else if \<not> req_ok st1 then (Inl RequestError, st1)
          else (Inr (), st1\<lparr>events_store := store_delete (KStr eventId) (events_store st1)\<rparr>))"

section \<open>Migration (migrateFromLocalStorage)\<close>

text \<open>Every exception is caught and logged: the routine returns nothing and never throws.\<close>

definition migrateFromLocalStorage :: "browser \<Rightarrow> browser" where
  "migrateFromLocalStorage st =
     (case churchEvents st of
        None \<Rightarrow> st
      | Some EmptyText \<Rightarrow> st
      | Some stored \<Rightarrow>
          (case JSON_parse stored of
             Inl e \<Rightarrow> st
           | Inr events \<Rightarrow> snd (saveAllEvents events st)))"

section \<open>Remote sync\<close>

text \<open>
  The outcome of a \<^verbatim>\<open>fetch\<close> is an input of the model: \<open>Rejected\<close> is a network
  error, \<open>Response status body\<close> a response with its status and what
  \<^verbatim>\<open>response.json()\<close> yields (\<open>None\<close> when the body is not JSON, which throws).
  \<^verbatim>\<open>response.ok\<close> is a status from 200 to 299.
\<close>

datatype fetch_result = Rejected | Response nat "jsval option"

definition response_ok :: "nat \<Rightarrow> bool" where
  "response_ok status = (200 \<le> status \<and> status \<le> 299)"

definition syncEventsWithSupabase :: "fetch_result \<Rightarrow> browser \<Rightarrow> (js_error + jsval) \<times> browser" where
  "syncEventsWithSupabase r st =
     (case r of
        Rejected \<Rightarrow> getAllEvents st
      | Response status body \<Rightarrow>
          if \<not> response_ok status then
            (case getAllEvents st of
               (Inl e, st1) \<Rightarrow> getAllEvents st1
             | (Inr evs, st1) \<Rightarrow> (Inr evs, st1))
          else
            (case body of
               None \<Rightarrow> getAllEvents st
             | Some data \<Rightarrow>
                 (case get_prop data ''events'' of
                    Inl e \<Rightarrow> getAllEvents st
                  | Inr evs \<Rightarrow>
                      (let supabaseEvents = (if truthy evs then evs else JArr [])
                       in case saveAllEvents supabaseEvents st of
                            (Inl e, st1) \<Rightarrow> getAllEvents st1
                          | (Inr u, st1) \<Rightarrow> (Inr supabaseEvents, st1)))))"

text \<open>
  \<open>append_and_save event\<close> is
  \<^verbatim>\<open>const allEvents = await getAllEvents(); await saveAllEvents([...allEvents, event])\<close>,
  shared by both paths of \<^verbatim>\<open>createEventWithSync\<close>; \<open>local_create\<close> is its catch
  block, with the results of \<^verbatim>\<open>crypto.randomUUID()\<close> and
  \<^verbatim>\<open>new Date().toISOString()\<close> as the inputs \<open>uuid\<close> and \<open>now\<close>.
\<close>

definition append_and_save :: "jsval \<Rightarrow> browser \<Rightarrow> (js_error + jsval) \<times> browser" where
  "append_and_save event st =
     (case getAllEvents st of
        (Inl e, st1) \<Rightarrow> (Inl e, st1)
      | (Inr allEvents, st1) \<Rightarrow>
          (case js_iterate allEvents of
             Inl e \<Rightarrow> (Inl e, st1)
           | Inr es \<Rightarrow>
               (case saveAllEvents (JArr (es @ [event])) st1 of
                  (Inl e, st2) \<Rightarrow> (Inl e, st2)
                | (Inr u, st2) \<Rightarrow> (Inr event, st2))))"

definition local_create :: "string \<Rightarrow> string \<Rightarrow> jsval \<Rightarrow> browser \<Rightarrow> (js_error + jsval) \<times> browser" where
  "local_create uuid now eventData st =
     (let event = JObj (spread_into
                    [(''id'', JStr uuid), (''createdAt'', JStr now), (''updatedAt'', JStr now)]
                    (spread_props eventData))
      in append_and_save event st)"

definition createEventWithSync ::
  "fetch_result \<Rightarrow> string \<Rightarrow> string \<Rightarrow> jsval \<Rightarrow> browser \<Rightarrow> (js_error + jsval) \<times> browser" where
  "createEventWithSync r uuid now eventData st =
     (case r of
        Rejected \<Rightarrow> local_create uuid now eventData st
      | Response status body \<Rightarrow>
          if \<not> response_ok status then local_create uuid now eventData st
          else
            (case body of
               None \<Rightarrow> local_create uuid now eventData st
             | Some result \<Rightarrow>
                 (case get_prop result ''event'' of
                    Inl e \<Rightarrow> local_create uuid now eventData st
                  | Inr newEvent \<Rightarrow>
                      (case append_and_save newEvent st of
                         (Inl e, st1) \<Rightarrow> local_create uuid now eventData st1
                       | (Inr ev, st1) \<Rightarrow> (Inr ev, st1)))))"

definition deleteEventWithSync :: "fetch_result \<Rightarrow> string \<Rightarrow> browser \<Rightarrow> (js_error + unit) \<times> browser" where
  "deleteEventWithSync r eventId st =
     (case r of
        Rejected \<Rightarrow> deleteEvent eventId st
      | Response status body \<Rightarrow>
          if \<not> response_ok status then deleteEvent eventId st
          else
            (case deleteEvent eventId st of
               (Inl e, st1) \<Rightarrow> deleteEvent eventId st1
             | (Inr u, st1) \<Rightarrow> (Inr (), st1)))"

section \<open>Vocabulary of the properties\<close>

text \<open>
  The local structured store is operational when the database opens (or is open already),
  transactions can be created and requests succeed.
\<close>

definition operational :: "browser \<Rightarrow> bool" where
  "operational st = ((db st \<or> open_ok st) \<and> tx_ok st \<and> req_ok st)"

text \<open>
  \<open>prop_of v k\<close> reads a property of a record for the statements below
  (\<^verbatim>\<open>undefined\<close> where the member access would throw). A value is embedded-encoded
  when it is a string that starts with \<^verbatim>\<open>data:\<close>, the test the source applies.
  \<open>stripped e l\<close> says that \<open>l\<close> is the media-stripped copy of the record \<open>e\<close>: its
  cover image is not embedded-encoded and is the empty string where that of \<open>e\<close> was;
  its media are those of \<open>e\<close> whose url is not embedded-encoded, as JSON; none of them
  has an embedded-encoded url.
\<close>

definition prop_of :: "jsval \<Rightarrow> string \<Rightarrow> jsval" where
  "prop_of v k = (case get_prop v k of Inl e \<Rightarrow> JUndefined | Inr x \<Rightarrow> x)"

fun embedded :: "jsval \<Rightarrow> bool" where
  "embedded (JStr s) = startsWith s ''data:''"
| "embedded v = False"

definition media_items :: "jsval \<Rightarrow> jsval list" where
  "media_items e = (case prop_of e ''media'' of JArr ms \<Rightarrow> ms | _ \<Rightarrow> [])"

definition stripped :: "jsval \<Rightarrow> jsval \<Rightarrow> bool" where
  "stripped e l =
     (\<not> embedded (prop_of l ''image'')
      \<and> (embedded (prop_of e ''image'') \<longrightarrow> prop_of l ''image'' = JStr [])
      \<and> prop_of l ''media'' = JArr (map to_json (filter (\<lambda>m. \<not> embedded (prop_of m ''url'')) (media_items e)))
      \<and> (\<forall>m \<in> set (media_items l). \<not> embedded (prop_of m ''url'')))"

text \<open>
  The remote call failed: the \<^verbatim>\<open>fetch\<close> was rejected or the response is not ok.
  An event record, as the data model has it: its \<^verbatim>\<open>id\<close> is a valid key, its
  \<^verbatim>\<open>media\<close> is absent, \<^verbatim>\<open>null\<close> or an array of objects with a string
  \<^verbatim>\<open>url\<close>, its \<^verbatim>\<open>image\<close> is absent, \<^verbatim>\<open>null\<close> or a string. These are
  the records on which the copy for \<^verbatim>\<open>localStorage\<close> does not throw.
\<close>

fun remote_failed :: "fetch_result \<Rightarrow> bool" where
  "remote_failed Rejected = True"
| "remote_failed (Response status body) = (\<not> response_ok status)"

fun media_item_ok :: "jsval \<Rightarrow> bool" where
  "media_item_ok (JObj ps) = (case obj_get ps ''url'' of JStr s \<Rightarrow> True | _ \<Rightarrow> False)"
| "media_item_ok v = False"

fun media_ok :: "jsval \<Rightarrow> bool" where
  "media_ok JUndefined = True"
| "media_ok JNull = True"
| "media_ok (JArr ms) = list_all media_item_ok ms"
| "media_ok v = False"

fun image_ok :: "jsval \<Rightarrow> bool" where
  "image_ok JUndefined = True"
| "image_ok JNull = True"
| "image_ok (JStr s) = True"
| "image_ok v = False"

definition event_record :: "jsval \<Rightarrow> bool" where
  "event_record e =
     (extract_key e \<noteq> None \<and> media_ok (prop_of e ''media'') \<and> image_ok (prop_of e ''image''))"

text \<open>A plain object: its property names are pairwise different.\<close>

fun plain_object :: "jsval \<Rightarrow> bool" where
  "plain_object (JObj ps) = distinct (map fst ps)"
| "plain_object v = False"

text \<open>Sample data: two event records, the first with an embedded-encoded cover image
  and one embedded-encoded media item, and a browser whose store holds one record.\<close>

definition sample_events :: "jsval list" where
  "sample_events =
     [JObj [(''id'', JStr ''evt-2''), (''title'', JStr ''Harvest''),
            (''image'', JStr ''data:image/png;base64,iVBOR''),
            (''media'', JArr [JObj [(''id'', JStr ''m1''), (''type'', JStr ''image''),
                                    (''url'', JStr ''data:image/jpeg;base64,AAAA'')],
                              JObj [(''id'', JStr ''m2''), (''type'', JStr ''image''),
                                    (''url'', JStr ''https://example.com/a.jpg'')]])],
      JObj [(''id'', JStr ''evt-1''), (''title'', JStr ''Picnic'')]]"

definition sample_browser :: browser where
  "sample_browser =
     \<lparr>db = False, open_ok = True, tx_ok = True, req_ok = True,
      events_store = [(KStr ''evt-0'', JObj [(''id'', JStr ''evt-0''), (''title'', JStr ''Vigil'')])],
      churchEvents = None\<rparr>"

lemmas sample_defs = sample_events_def sample_browser_def

lemmas run_defs =
  saveAllEvents_def getAllEvents_def deleteEvent_def initDB_def legacy_read_def
  store_getAll_def store_delete_def obj_get_def lightweight_event_def light_media_def
  light_image_def keep_media_def spread_into_def JSON_stringify_def
  migrateFromLocalStorage_def syncEventsWithSupabase_def createEventWithSync_def
  deleteEventWithSync_def local_create_def append_and_save_def response_ok_def Let_def

section \<open>Lemmas about the stores\<close>

subsection \<open>Opening the database, putting records\<close>

lemma initDB_operational:
  "operational st \<Longrightarrow> initDB st = Inr (st\<lparr>db := True\<rparr>)"
  by (cases st) (auto simp: operational_def initDB_def)

lemma store_put_fresh_set:
  "k \<notin> fst ` set s \<Longrightarrow> set (store_put k v s) = insert (k, v) (set s)"
  by (induction s) auto

lemma store_put_fresh_length:
  "k \<notin> fst ` set s \<Longrightarrow> length (store_put k v s) = Suc (length s)"
  by (induction s) auto

lemma put_all_fresh:
  "\<forall>e \<in> set es. extract_key e \<noteq> None \<Longrightarrow> distinct (map extract_key es) \<Longrightarrow>
   \<forall>e \<in> set es. the (extract_key e) \<notin> fst ` set s \<Longrightarrow>
   \<exists>s'. put_all es s = (Inr (), s') \<and> snd ` set s' = snd ` set s \<union> set es
        \<and> length s' = length s + length es"
proof (induction es arbitrary: s)
  case Nil
  then show ?case by simp
next
  case (Cons e es)
  from Cons.prems(1) obtain k where k: "extract_key e = Some k" by auto
  from Cons.prems(3) k have fresh: "k \<notin> fst ` set s" by simp
  have later: "\<forall>x \<in> set es. the (extract_key x) \<notin> fst ` set (store_put k e s)"
  proof
    fix x assume x: "x \<in> set es"
    with Cons.prems(1) obtain kx where kx: "extract_key x = Some kx" by auto
    from Cons.prems(2) x k kx have "kx \<noteq> k" by (metis distinct.simps(2) image_eqI list.simps(9) set_map)
    moreover from Cons.prems(3) x kx have "kx \<notin> fst ` set s" by force
    ultimately show "the (extract_key x) \<notin> fst ` set (store_put k e s)"
      using kx fresh by (simp add: store_put_fresh_set)
  qed
  from Cons.prems have "\<forall>x \<in> set es. extract_key x \<noteq> None" "distinct (map extract_key es)"
    by simp_all
  from Cons.IH [OF this later] obtain s' where
    s': "put_all es (store_put k e s) = (Inr (), s')"
        "snd ` set s' = snd ` set (store_put k e s) \<union> set es"
        "length s' = length (store_put k e s) + length es"
    by blast
  show ?case
    using s' k fresh by (simp add: store_put_fresh_set store_put_fresh_length)
qed

lemma put_all_succeeds:
  "\<forall>e \<in> set es. extract_key e \<noteq> None \<Longrightarrow> \<exists>s'. put_all es s = (Inr (), s')"
  by (induction es arbitrary: s) auto

lemma saveAllEvents_store:
  assumes "operational st" and "put_all es [] = (Inr (), s)"
  shows "events_store (snd (saveAllEvents (JArr es) st)) = s"
    and "operational (snd (saveAllEvents (JArr es) st))"
  using assms
  by (auto simp: saveAllEvents_def initDB_operational operational_def split: sum.splits)

lemma getAllEvents_operational:
  "operational st \<Longrightarrow>
   getAllEvents st = (Inr (JArr (store_getAll (events_store st))), st\<lparr>db := True\<rparr>)"
  by (simp add: getAllEvents_def initDB_operational) (simp add: operational_def)

subsection \<open>Objects and their JSON text\<close>

lemma obj_get_obj_set:
  "obj_get (obj_set k v ps) k' = (if k' = k then v else obj_get ps k')"
  by (induction ps) (auto simp: obj_get_def)

lemma distinct_obj_set:
  "distinct (map fst ps) \<Longrightarrow> distinct (map fst (obj_set k v ps))"
proof (induction ps)
  case Nil
  then show ?case by simp
next
  case (Cons p ps)
  have keys: "fst ` set (obj_set k v ps) \<subseteq> insert k (fst ` set ps)" for ps
    by (induction ps) auto
  from Cons show ?case using keys [of ps] by auto
qed

lemma distinct_spread_into:
  "distinct (map fst target) \<Longrightarrow> distinct (map fst (spread_into target src))"
  unfolding spread_into_def
  by (induction src arbitrary: target) (simp_all add: distinct_obj_set)

lemma map_of_to_json_defined:
  "map_of ps k = Some v \<Longrightarrow> v \<noteq> JUndefined \<Longrightarrow>
   map_of (map (\<lambda>p. (fst p, to_json (snd p))) (filter (\<lambda>p. snd p \<noteq> JUndefined) ps)) k
     = Some (to_json v)"
  by (induction ps) (auto split: if_splits)

lemma obj_get_to_json_defined:
  "obj_get ps k \<noteq> JUndefined \<Longrightarrow>
   obj_get (map (\<lambda>p. (fst p, to_json (snd p))) (filter (\<lambda>p. snd p \<noteq> JUndefined) ps)) k
     = to_json (obj_get ps k)"
  by (cases "map_of ps k") (simp_all add: obj_get_def map_of_to_json_defined)

lemma obj_get_to_json_undefined:
  "distinct (map fst ps) \<Longrightarrow> obj_get ps k = JUndefined \<Longrightarrow>
   obj_get (map (\<lambda>p. (fst p, to_json (snd p))) (filter (\<lambda>p. snd p \<noteq> JUndefined) ps)) k
     = JUndefined"
proof (induction ps)
  case Nil
  then show ?case by (simp add: obj_get_def)
next
  case (Cons p ps)
  show ?case
  proof (cases "fst p = k")
    case True
    with Cons.prems have und: "snd p = JUndefined" and "k \<notin> fst ` set ps"
      by (auto simp: obj_get_def)
    then have "k \<notin> fst ` set (map (\<lambda>p. (fst p, to_json (snd p))) (filter (\<lambda>p. snd p \<noteq> JUndefined) ps))"
      by force
    then have "map_of (map (\<lambda>p. (fst p, to_json (snd p))) (filter (\<lambda>p. snd p \<noteq> JUndefined) ps)) k = None"
      by (simp add: map_of_eq_None_iff)
    with und show ?thesis by (simp add: obj_get_def)
  next
    case False
    with Cons show ?thesis by (auto simp: obj_get_def)
  qed
qed

lemma embedded_to_json: "embedded (to_json v) = embedded v"
  by (cases v) simp_all

lemma filter_media_result:
  "filter_media ms = Inr r \<Longrightarrow>
   r = filter (\<lambda>m. \<not> embedded (prop_of m ''url'')) ms
   \<and> (\<forall>m \<in> set ms. \<exists>ps s. m = JObj ps \<and> obj_get ps ''url'' = JStr s)"
proof (induction ms arbitrary: r)
  case Nil
  then show ?case by simp
next
  case (Cons m ms)
  from Cons.prems obtain keep r' where
    keep: "keep_media m = Inr keep" and r': "filter_media ms = Inr r'"
    and r: "r = (if keep then m # r' else r')"
    by (auto split: sum.splits)
  from keep obtain ps s where m: "m = JObj ps" "obj_get ps ''url'' = JStr s"
    and k: "keep = (\<not> startsWith s ''data:'')"
    by (cases m) (auto simp: keep_media_def split: sum.splits jsval.splits)
  from m k have "keep = (\<not> embedded (prop_of m ''url''))"
    by (simp add: prop_of_def)
  with Cons.IH [OF r'] r m show ?case by auto
qed

lemma kept_media_not_embedded:
  assumes "m = JObj ps" "obj_get ps ''url'' = JStr s" "\<not> embedded (prop_of m ''url'')"
  shows "\<not> embedded (prop_of (to_json m) ''url'')"
proof -
  have "obj_get ps ''url'' \<noteq> JUndefined" using assms(2) by simp
  from obj_get_to_json_defined [OF this] assms show ?thesis
    by (simp add: prop_of_def)
qed

subsection \<open>The media-stripped copy\<close>

lemma lightweight_event_stripped:
  assumes "lightweight_event e = Inr l"
  shows "stripped e (to_json l)"
proof -
  from assms obtain med img where
    med: "light_media e = Inr med" and img: "light_image e = Inr img"
    and l: "l = JObj (obj_set ''image'' img (obj_set ''media'' med (spread_into [] (spread_props e))))"
    by (auto simp: lightweight_event_def split: sum.splits)
  let ?ps = "obj_set ''image'' img (obj_set ''media'' med (spread_into [] (spread_props e)))"
  have dist: "distinct (map fst ?ps)"
    by (intro distinct_obj_set distinct_spread_into) simp
  have g_img: "obj_get ?ps ''image'' = img" by (simp add: obj_get_obj_set)
  have g_med: "obj_get ?ps ''media'' = med" by (simp add: obj_get_obj_set)
  from img have img_cases:
    "img = JUndefined \<or> img = JNull \<or> (\<exists>s. img = JStr s \<and> \<not> startsWith s ''data:'')"
    by (auto simp: light_image_def split: sum.splits jsval.splits if_splits)
  from img have img_emb: "embedded (prop_of e ''image'') \<Longrightarrow> img = JStr []"
    by (auto simp: light_image_def prop_of_def split: sum.splits jsval.splits if_splits)
  from med obtain r where r: "med = JArr r"
    and r_eq: "r = filter (\<lambda>m. \<not> embedded (prop_of m ''url'')) (media_items e)"
    and r_ok: "\<forall>m \<in> set r. \<exists>ps s. m = JObj ps \<and> obj_get ps ''url'' = JStr s"
    by (auto simp: light_media_def media_items_def prop_of_def
        split: sum.splits jsval.splits dest!: filter_media_result)
  have p_img: "prop_of (to_json l) ''image'' = (if img = JUndefined then JUndefined else to_json img)"
  proof (cases "img = JUndefined")
    case True
    with obj_get_to_json_undefined [OF dist, of "''image''"] g_img show ?thesis
      by (simp add: l prop_of_def)
  next
    case False
    with obj_get_to_json_defined [of ?ps "''image''"] g_img show ?thesis
      by (simp add: l prop_of_def)
  qed
  have p_med: "prop_of (to_json l) ''media'' = JArr (map to_json r)"
    using obj_get_to_json_defined [of ?ps "''media''"] g_med r
    by (simp add: l prop_of_def)
  have c1: "\<not> embedded (prop_of (to_json l) ''image'')"
    using img_cases p_img by auto
  have c2: "embedded (prop_of e ''image'') \<longrightarrow> prop_of (to_json l) ''image'' = JStr []"
    using img_emb p_img by auto
  have c4: "\<forall>m \<in> set (media_items (to_json l)). \<not> embedded (prop_of m ''url'')"
  proof
    fix m assume "m \<in> set (media_items (to_json l))"
    with p_med obtain m0 where m0: "m0 \<in> set r" "m = to_json m0"
      by (auto simp: media_items_def)
    from m0(1) r_eq have ne: "\<not> embedded (prop_of m0 ''url'')" by simp
    from r_ok m0(1) obtain ps s where "m0 = JObj ps" "obj_get ps ''url'' = JStr s" by blast
    from kept_media_not_embedded [OF this ne] m0(2)
    show "\<not> embedded (prop_of m ''url'')" by simp
  qed
  show ?thesis
    unfolding stripped_def using c1 c2 c4 p_med r_eq by simp
qed

lemma lightweight_all_stripped:
  "lightweight_all es = Inr ls \<Longrightarrow>
   length ls = length es \<and> (\<forall>i < length es. stripped (es ! i) (to_json (ls ! i)))"
proof (induction es arbitrary: ls)
  case Nil
  then show ?case by simp
next
  case (Cons e es)
  from Cons.prems obtain l ls' where
    l: "lightweight_event e = Inr l" and ls': "lightweight_all es = Inr ls'"
    and ls: "ls = l # ls'"
    by (auto split: sum.splits)
  from Cons.IH [OF ls'] lightweight_event_stripped [OF l] ls
  show ?case by (auto simp: nth_Cons split: nat.splits)
qed

lemma saveAllEvents_success:
  assumes "saveAllEvents events st = (Inr (), st')"
  shows "\<exists>es ls. events = JArr es \<and> lightweight_all es = Inr ls
           \<and> churchEvents st' = Some (JsonText (JArr (map to_json ls)))"
proof -
  from assms obtain lw where lw: "lightweightEvents events = Inr lw"
    and ce: "churchEvents st' = Some (JSON_stringify lw)"
    by (auto simp: saveAllEvents_def split: sum.splits if_splits prod.splits)
  from lw obtain es ls where "events = JArr es" "lightweight_all es = Inr ls" "lw = JArr ls"
    by (cases events) (auto split: sum.splits)
  with ce show ?thesis by (simp add: JSON_stringify_def)
qed

lemma saveAllEvents_writes_stripped:
  assumes "saveAllEvents events st = (Inr (), st')"
  shows "\<exists>es ls. events = JArr es \<and> churchEvents st' = Some (JsonText (JArr ls))
           \<and> length ls = length es \<and> (\<forall>i < length es. stripped (es ! i) (ls ! i))"
proof -
  from saveAllEvents_success [OF assms] obtain es ls where
    a: "events = JArr es" "lightweight_all es = Inr ls"
       "churchEvents st' = Some (JsonText (JArr (map to_json ls)))"
    by blast
  from lightweight_all_stripped [OF a(2)] a show ?thesis by auto
qed

subsection \<open>Saving event records, local creation\<close>

lemma filter_media_ok: "list_all media_item_ok ms \<Longrightarrow> \<exists>r. filter_media ms = Inr r"
proof (induction ms)
  case Nil
  then show ?case by simp
next
  case (Cons m ms)
  then obtain r where r: "filter_media ms = Inr r" by auto
  from Cons.prems have "media_item_ok m" by simp
  then obtain keep where "keep_media m = Inr keep"
    by (cases m) (auto simp: keep_media_def split: jsval.splits)
  with r show ?case by simp
qed

lemma event_record_lightweight:
  assumes "event_record e"
  shows "\<exists>l. lightweight_event e = Inr l"
proof -
  from assms obtain ps where e: "e = JObj ps"
    by (cases e) (auto simp: event_record_def)
  from assms e have m: "media_ok (obj_get ps ''media'')" and i: "image_ok (obj_get ps ''image'')"
    by (simp_all add: event_record_def prop_of_def)
  from m have "\<exists>med. light_media e = Inr med"
    by (cases "obj_get ps ''media''")
       (auto simp: light_media_def e dest: filter_media_ok)
  moreover from i have "\<exists>img. light_image e = Inr img"
    by (cases "obj_get ps ''image''") (auto simp: light_image_def e)
  ultimately show ?thesis
    by (auto simp: lightweight_event_def)
qed

lemma event_records_lightweight_all:
  "\<forall>e \<in> set es. event_record e \<Longrightarrow> \<exists>ls. lightweight_all es = Inr ls"
proof (induction es)
  case Nil
  then show ?case by simp
next
  case (Cons e es)
  then obtain ls where "lightweight_all es = Inr ls" by auto
  moreover from Cons.prems obtain l where "lightweight_event e = Inr l"
    using event_record_lightweight by auto
  ultimately show ?case by simp
qed

lemma saveAllEvents_event_records:
  assumes "operational st" and "\<forall>e \<in> set es. event_record e"
  shows "\<exists>st'. saveAllEvents (JArr es) st = (Inr (), st')"
proof -
  from assms(2) have "\<forall>e \<in> set es. extract_key e \<noteq> None"
    by (simp add: event_record_def)
  from put_all_succeeds [OF this] obtain s where "put_all es [] = (Inr (), s)" by blast
  moreover from event_records_lightweight_all [OF assms(2)]
  obtain ls where "lightweight_all es = Inr ls" by blast
  ultimately show ?thesis
    using assms(1)
    by (simp add: saveAllEvents_def initDB_operational) (simp add: operational_def)
qed

lemma obj_get_spread_into:
  "distinct (map fst src) \<Longrightarrow>
   obj_get (spread_into target src) k =
     (if k \<in> fst ` set src then obj_get src k else obj_get target k)"
proof (induction src arbitrary: target)
  case Nil
  then show ?case by (simp add: spread_into_def)
next
  case (Cons p src)
  have step: "spread_into target (p # src) = spread_into (obj_set (fst p) (snd p) target) src"
    by (simp add: spread_into_def)
  from Cons.prems have d: "distinct (map fst src)" and fresh: "fst p \<notin> fst ` set src"
    by simp_all
  have head: "obj_get (p # src) k = (if k = fst p then snd p else obj_get src k)"
    by (cases p) (simp add: obj_get_def)
  show ?case
    unfolding step Cons.IH [OF d] head using fresh
    by (auto simp: obj_get_obj_set)
qed

lemma store_put_member: "(k, v) \<in> set (store_put k v s)"
  by (induction s) auto

lemma put_all_last:
  "put_all (es @ [e]) s0 = (Inr u, s) \<Longrightarrow> \<exists>k. extract_key e = Some k \<and> (k, e) \<in> set s"
  by (induction es arbitrary: s0) (auto split: option.splits simp: store_put_member)

lemma saveAllEvents_success_store:
  assumes "saveAllEvents (JArr es) st = (Inr (), st')"
  shows "\<exists>s. put_all es [] = (Inr (), s) \<and> events_store st' = s"
  using assms
  by (auto simp: saveAllEvents_def split: sum.splits if_splits prod.splits)

lemma local_create_returns:
  assumes "local_create uuid now eventData st = (Inr ev, st')"
  shows "ev = JObj (spread_into
                 [(''id'', JStr uuid), (''createdAt'', JStr now), (''updatedAt'', JStr now)]
                 (spread_props eventData))
         \<and> (\<exists>k. extract_key ev = Some k \<and> (k, ev) \<in> set (events_store st'))"
proof -
  let ?ev = "JObj (spread_into
                 [(''id'', JStr uuid), (''createdAt'', JStr now), (''updatedAt'', JStr now)]
                 (spread_props eventData))"
  from assms obtain es st1 where
    ev: "ev = ?ev" and save: "saveAllEvents (JArr (es @ [?ev])) st1 = (Inr (), st')"
    by (auto simp: local_create_def append_and_save_def Let_def
        split: prod.splits sum.splits)
  from saveAllEvents_success_store [OF save] put_all_last ev
  show ?thesis by blast
qed

lemma createEventWithSync_remote_failed:
  "remote_failed r \<Longrightarrow> createEventWithSync r uuid now eventData st = local_create uuid now eventData st"
  by (cases r) (simp_all add: createEventWithSync_def)

lemma saveAllEvents_idempotent:
  "snd (saveAllEvents events (snd (saveAllEvents events st))) = snd (saveAllEvents events st)"
proof (cases "js_iterate events")
  case (Inl e)
  then show ?thesis
    by (cases st) (simp add: saveAllEvents_def initDB_def)
next
  case (Inr es)
  obtain r s where p: "put_all es [] = (r, s)"
    by (cases "put_all es []")
  show ?thesis
  proof (cases r)
    case (Inl e)
    with Inr p show ?thesis
      by (cases st) (simp add: saveAllEvents_def initDB_def)
  next
    case r: (Inr u)
    show ?thesis
    proof (cases "lightweightEvents events")
      case (Inl e)
      with Inr p r show ?thesis
        by (cases st) (simp add: saveAllEvents_def initDB_def)
    next
      case lw: (Inr l)
      with Inr p r show ?thesis
        by (cases st) (simp add: saveAllEvents_def initDB_def)
    qed
  qed
qed

subsection \<open>The legacy cache that saveAllEvents wrote\<close>

text \<open>
  A call of \<^verbatim>\<open>saveAllEvents\<close> that throws leaves the legacy cache as it was. The
  stripped copy of a stripped copy is the same JSON text, so the migration leaves a
  legacy cache that \<^verbatim>\<open>saveAllEvents\<close> wrote as it found it.
\<close>

lemma saveAllEvents_failure_keeps_cache:
  assumes "fst (saveAllEvents events st) \<noteq> Inr ()"
  shows "churchEvents (snd (saveAllEvents events st)) = churchEvents st"
proof (cases "js_iterate events")
  case (Inl e)
  then show ?thesis
    by (cases st) (simp add: saveAllEvents_def initDB_def)
next
  case (Inr es)
  obtain r s where p: "put_all es [] = (r, s)"
    by (cases "put_all es []")
  show ?thesis
  proof (cases r)
    case (Inl e)
    with Inr p show ?thesis
      by (cases st) (simp add: saveAllEvents_def initDB_def)
  next
    case r: (Inr u)
    show ?thesis
    proof (cases "lightweightEvents events")
      case (Inl e)
      with Inr p r show ?thesis
        by (cases st) (simp add: saveAllEvents_def initDB_def)
    next
      case lw: (Inr l)
      with Inr p r assms show ?thesis
        by (cases st) (auto simp: saveAllEvents_def initDB_def split: if_splits)
    qed
  qed
qed

lemma to_json_defined: "to_json v \<noteq> JUndefined"
  by (cases v) simp_all

lemma to_json_idem: "to_json (to_json v) = to_json v"
proof (induction v)
  case (JArr xs)
  then show ?case by (simp add: map_idI)
next
  case (JObj ps)
  have "map (\<lambda>p. (fst p, to_json (snd p)))
          (map (\<lambda>p. (fst p, to_json (snd p))) (filter (\<lambda>p. snd p \<noteq> JUndefined) ps))
        = map (\<lambda>p. (fst p, to_json (snd p))) (filter (\<lambda>p. snd p \<noteq> JUndefined) ps)"
    using JObj by (auto simp: snds.simps)
  then show ?case
    by (simp add: filter_map o_def to_json_defined)
qed simp_all

lemma key_of_value_to_json: "key_of_value v = Some k \<Longrightarrow> to_json v = v"
proof (induction v arbitrary: k)
  case (JArr xs)
  have "\<forall>x \<in> set xs. \<exists>k. key_of_value x = Some k"
    using JArr.prems by (auto simp: Let_def list_all_iff split: if_splits)
  with JArr.IH have "map to_json xs = xs"
    by (intro map_idI) auto
  then show ?case by simp
qed simp_all

lemma obj_set_same: "map_of ps k = Some v \<Longrightarrow> obj_set k v ps = ps"
  by (induction ps) (auto split: if_splits)

lemma obj_set_fresh: "k \<notin> fst ` set ps \<Longrightarrow> obj_set k v ps = ps @ [(k, v)]"
  by (induction ps) auto

lemma spread_into_distinct:
  "distinct (map fst (acc @ ps)) \<Longrightarrow> spread_into acc ps = acc @ ps"
proof (induction ps arbitrary: acc)
  case Nil
  then show ?case by (simp add: spread_into_def)
next
  case (Cons p ps)
  have step: "spread_into acc (p # ps) = spread_into (obj_set (fst p) (snd p) acc) ps"
    by (simp add: spread_into_def)
  from Cons.prems have "fst p \<notin> fst ` set acc" by auto
  then have o: "obj_set (fst p) (snd p) acc = acc @ [p]"
    by (simp add: obj_set_fresh)
  from Cons.prems have "distinct (map fst ((acc @ [p]) @ ps))" by simp
  from Cons.IH [OF this] show ?case by (simp add: step o)
qed

lemma map_of_obj_set:
  "map_of (obj_set k v ps) k' = (if k' = k then Some v else map_of ps k')"
  by (induction ps) auto

lemma undefined_property_dropped:
  "distinct (map fst ps) \<Longrightarrow> map_of ps k = Some JUndefined \<Longrightarrow>
   k \<notin> fst ` set (map (\<lambda>p. (fst p, to_json (snd p))) (filter (\<lambda>p. snd p \<noteq> JUndefined) ps))"
proof (induction ps)
  case Nil
  then show ?case by simp
next
  case (Cons p ps)
  show ?case
  proof (cases "fst p = k")
    case True
    with Cons.prems have "snd p = JUndefined" "k \<notin> fst ` set ps" by auto
    then show ?thesis by force
  next
    case False
    with Cons show ?thesis by auto
  qed
qed

lemma filter_media_kept:
  "\<forall>m \<in> set r. keep_media m = Inr True \<Longrightarrow> filter_media r = Inr r"
  by (induction r) auto

lemma keep_media_to_json:
  assumes "m = JObj ps" "obj_get ps ''url'' = JStr s" "\<not> embedded (prop_of m ''url'')"
  shows "keep_media (to_json m) = Inr True"
proof -
  have "obj_get ps ''url'' \<noteq> JUndefined" using assms(2) by simp
  from obj_get_to_json_defined [OF this] assms show ?thesis
    by (simp add: keep_media_def prop_of_def)
qed

lemma lightweight_event_again:
  assumes l: "lightweight_event e = Inr l" and wf: "plain_object e"
    and key: "extract_key e \<noteq> None"
  shows "extract_key (to_json l) \<noteq> None
       \<and> (\<exists>l2. lightweight_event (to_json l) = Inr l2 \<and> to_json l2 = to_json l)"
proof -
  from wf obtain ps where e: "e = JObj ps" and dps: "distinct (map fst ps)"
    by (cases e) auto
  from l obtain med img where
    med: "light_media e = Inr med" and img: "light_image e = Inr img"
    and l_eq: "l = JObj (obj_set ''image'' img (obj_set ''media'' med (spread_into [] ps)))"
    by (auto simp: lightweight_event_def e split: sum.splits)
  let ?Q = "obj_set ''image'' img (obj_set ''media'' med ps)"
  let ?T = "map (\<lambda>p. (fst p, to_json (snd p))) (filter (\<lambda>p. snd p \<noteq> JUndefined) ?Q)"
  have sp: "spread_into [] ps = ps"
    using spread_into_distinct [of "[]" ps] dps by simp
  have lQ: "l = JObj ?Q" by (simp add: l_eq sp)
  have dQ: "distinct (map fst ?Q)"
    by (intro distinct_obj_set dps)
  have dT: "distinct (map fst ?T)"
    using dQ by (simp add: o_def distinct_map_filter)
  have tl: "to_json l = JObj ?T" by (simp add: lQ)
  have spT: "spread_into [] ?T = ?T"
    using spread_into_distinct [of "[]" ?T] dT by simp
  from key e obtain k where k: "key_of_value (obj_get ps ''id'') = Some k" by auto
  then have idv: "obj_get ps ''id'' \<noteq> JUndefined" by auto
  have "obj_get ?Q ''id'' = obj_get ps ''id''" by (simp add: obj_get_obj_set)
  with obj_get_to_json_defined [of ?Q "''id''"] idv key_of_value_to_json [OF k]
  have "obj_get ?T ''id'' = obj_get ps ''id''" by simp
  with k have c1: "extract_key (to_json l) \<noteq> None" by (simp add: tl)
  from med obtain r where r: "med = JArr r"
    and r_eq: "r = filter (\<lambda>m. \<not> embedded (prop_of m ''url'')) (media_items e)"
    and r_ok: "\<forall>m \<in> set r. \<exists>ps s. m = JObj ps \<and> obj_get ps ''url'' = JStr s"
    by (auto simp: light_media_def media_items_def prop_of_def
        split: sum.splits jsval.splits dest!: filter_media_result)
  have mQ: "map_of ?Q ''media'' = Some med" by (simp add: map_of_obj_set)
  from map_of_to_json_defined [OF mQ] r
  have mT: "map_of ?T ''media'' = Some (JArr (map to_json r))" by simp
  have "\<forall>m \<in> set (map to_json r). keep_media m = Inr True"
  proof
    fix m assume "m \<in> set (map to_json r)"
    then obtain m0 where m0: "m0 \<in> set r" "m = to_json m0" by auto
    from m0(1) r_eq have ne: "\<not> embedded (prop_of m0 ''url'')" by simp
    from r_ok m0(1) obtain mps s where "m0 = JObj mps" "obj_get mps ''url'' = JStr s" by blast
    from keep_media_to_json [OF this ne] m0(2) show "keep_media m = Inr True" by simp
  qed
  from filter_media_kept [OF this] mT
  have med2: "light_media (to_json l) = Inr (JArr (map to_json r))"
    by (simp add: tl light_media_def obj_get_def)
  have setm: "obj_set ''media'' (JArr (map to_json r)) ?T = ?T"
    by (rule obj_set_same [OF mT])
  from img have img_cases:
    "img = JUndefined \<or> img = JNull \<or> (\<exists>s. img = JStr s \<and> \<not> startsWith s ''data:'')"
    by (auto simp: light_image_def split: sum.splits jsval.splits if_splits)
  have iQ: "map_of ?Q ''image'' = Some img" by (simp add: map_of_obj_set)
  show ?thesis
  proof (cases "img = JUndefined")
    case True
    from undefined_property_dropped [OF dQ] iQ True
    have absent: "''image'' \<notin> fst ` set ?T" by simp
    then have "map_of ?T ''image'' = None" by (simp add: map_of_eq_None_iff)
    then have img2: "light_image (to_json l) = Inr JUndefined"
      by (simp add: tl light_image_def obj_get_def)
    have l2: "lightweight_event (to_json l) = Inr (JObj (?T @ [(''image'', JUndefined)]))"
      using absent
      by (simp add: lightweight_event_def med2 img2)
         (simp add: tl spT setm obj_set_fresh)
    have "to_json (JObj (?T @ [(''image'', JUndefined)])) = to_json (JObj ?T)" by simp
    also have "\<dots> = to_json l" by (simp only: tl [symmetric] to_json_idem)
    finally show ?thesis using c1 l2 by blast
  next
    case False
    with img_cases have tji: "to_json img = img" by auto
    from map_of_to_json_defined [OF iQ False] tji
    have iT: "map_of ?T ''image'' = Some img" by simp
    with img_cases False have img2: "light_image (to_json l) = Inr img"
      by (auto simp: tl light_image_def obj_get_def)
    have seti: "obj_set ''image'' img ?T = ?T"
      by (rule obj_set_same [OF iT])
    have l2: "lightweight_event (to_json l) = Inr (JObj ?T)"
      by (simp add: lightweight_event_def med2 img2) (simp add: tl spT setm seti)
    have "to_json (JObj ?T) = to_json l" by (simp only: tl [symmetric] to_json_idem)
    with c1 l2 show ?thesis by blast
  qed
qed

lemma lightweight_all_again:
  "lightweight_all es = Inr ls \<Longrightarrow>
   \<forall>e \<in> set es. plain_object e \<and> extract_key e \<noteq> None \<Longrightarrow>
   (\<forall>t \<in> set (map to_json ls). extract_key t \<noteq> None)
   \<and> (\<exists>ls2. lightweight_all (map to_json ls) = Inr ls2 \<and> map to_json ls2 = map to_json ls)"
proof (induction es arbitrary: ls)
  case Nil
  then show ?case by simp
next
  case (Cons e es)
  from Cons.prems(1) obtain l ls' where
    l: "lightweight_event e = Inr l" and ls': "lightweight_all es = Inr ls'"
    and ls: "ls = l # ls'"
    by (auto split: sum.splits)
  from Cons.prems(2) have "plain_object e" "extract_key e \<noteq> None"
    and rest: "\<forall>e \<in> set es. plain_object e \<and> extract_key e \<noteq> None" by simp_all
  from lightweight_event_again [OF l this(1,2)] obtain l2 where
    a: "extract_key (to_json l) \<noteq> None" "lightweight_event (to_json l) = Inr l2"
       "to_json l2 = to_json l" by blast
  from Cons.IH [OF ls' rest] obtain ls2 where
    b: "\<forall>t \<in> set (map to_json ls'). extract_key t \<noteq> None"
       "lightweight_all (map to_json ls') = Inr ls2" "map to_json ls2 = map to_json ls'"
    by blast
  from a b show ?case by (simp add: ls)
qed

lemma put_all_success_keys:
  "put_all es s = (Inr u, s') \<Longrightarrow> \<forall>e \<in> set es. extract_key e \<noteq> None"
  by (induction es arbitrary: s) (auto split: option.splits)

lemma migrate_after_save:
  assumes save: "saveAllEvents (JArr es) st = (Inr (), st')"
    and wf: "\<forall>e \<in> set es. plain_object e"
  shows "churchEvents (migrateFromLocalStorage st') = churchEvents st'"
proof -
  from saveAllEvents_success [OF save] obtain ls where
    ls: "lightweight_all es = Inr ls"
    and ce: "churchEvents st' = Some (JsonText (JArr (map to_json ls)))"
    by auto
  from saveAllEvents_success_store [OF save] put_all_success_keys
  have keys: "\<forall>e \<in> set es. extract_key e \<noteq> None" by blast
  from lightweight_all_again [OF ls] wf keys obtain ls2 where
    l2: "lightweight_all (map to_json ls) = Inr ls2" "map to_json ls2 = map to_json ls"
    by blast
  have m: "migrateFromLocalStorage st' = snd (saveAllEvents (JArr (map to_json ls)) st')"
    by (simp add: migrateFromLocalStorage_def ce)
  show ?thesis
  proof (cases "fst (saveAllEvents (JArr (map to_json ls)) st') = Inr ()")
    case True
    then have "saveAllEvents (JArr (map to_json ls)) st'
               = (Inr (), snd (saveAllEvents (JArr (map to_json ls)) st'))"
      by (metis prod.collapse)
    from saveAllEvents_success [OF this] l2 ce show ?thesis
      by (auto simp: m)
  next
    case False
    from saveAllEvents_failure_keeps_cache [OF this] show ?thesis by (simp add: m)
  qed
qed

section \<open>Lemmas about the image URL transform\<close>

text \<open>
  A url that contains \<^verbatim>\<open>.supabase.co/storage/v1/object/public/\<close> splits into at
  least two parts at \<^verbatim>\<open>/storage/v1/object/public/\<close>: once the url is recognised,
  the check \<^verbatim>\<open>urlParts.length < 2\<close> never returns. Decoding undoes encoding on
  ASCII segments, so a segment that is already encoded is not encoded twice, and a
  segment without \<^verbatim>\<open>%\<close> is encoded as it is.
\<close>

lemma split_at_length: "1 \<le> length (split_at sep acc s)"
  by (induction sep acc s rule: split_at.induct) auto

lemma startsWith_append_includes: "startsWith s (p @ q) \<Longrightarrow> str_includes s q"
proof (induction p arbitrary: s)
  case Nil
  then show ?case by (cases s) (auto elim: startsWith.elims)
next
  case (Cons x xs)
  then show ?case by (cases s) auto
qed

lemma str_includes_suffix: "str_includes s (p @ q) \<Longrightarrow> str_includes s q"
proof (induction s)
  case Nil
  then show ?case by simp
next
  case (Cons c cs)
  then show ?case
    using startsWith_append_includes [of "c # cs" p q] by auto
qed

lemma split_at_two_parts:
  "str_includes s sep \<Longrightarrow> sep \<noteq> [] \<Longrightarrow> 2 \<le> length (split_at sep acc s)"
proof (induction s arbitrary: acc)
  case Nil
  then show ?case by simp
next
  case (Cons c cs)
  show ?case
  proof (cases "startsWith (c # cs) sep")
    case True
    with split_at_length [of sep "[]" "drop (length sep - 1) cs"] show ?thesis by simp
  next
    case False
    with Cons.prems have "str_includes cs sep" by simp
    from Cons.IH [OF this Cons.prems(2)] False show ?thesis by simp
  qed
qed

lemma split_at_object_path:
  "str_includes u ''.supabase.co/storage/v1/object/public/'' \<Longrightarrow>
   2 \<le> length (split u ''/storage/v1/object/public/'')"
proof -
  assume "str_includes u ''.supabase.co/storage/v1/object/public/''"
  then have "str_includes u (''.supabase.co'' @ ''/storage/v1/object/public/'')" by simp
  from str_includes_suffix [OF this] show ?thesis
    by (simp add: split_def split_at_two_parts)
qed

lemma hex_val_digit:
  "d < 16 \<Longrightarrow> hex_val (''0123456789ABCDEF'' ! d) = Some d"
proof -
  assume "d < 16"
  then consider "d = 0" | "d = 1" | "d = 2" | "d = 3" | "d = 4" | "d = 5" | "d = 6" | "d = 7"
    | "d = 8" | "d = 9" | "d = 10" | "d = 11" | "d = 12" | "d = 13" | "d = 14" | "d = 15"
    by atomize_elim arith
  then show ?thesis by cases (simp_all add: hex_val_def)
qed

lemma uri_unreserved_not_percent: "uri_unreserved c \<Longrightarrow> c \<noteq> CHR ''%''"
  by (auto simp: uri_unreserved_def)

lemma decode_pct_encode:
  assumes "(of_char c :: nat) < 128"
  shows "decodeURIComponent (pct_encode c @ rest) =
           (case decodeURIComponent rest of Inl e \<Rightarrow> Inl e | Inr r \<Rightarrow> Inr (c # r))"
proof -
  let ?n = "of_char c :: nat"
  have d: "?n div 16 < 16" "?n mod 16 < 16" using assms by simp_all
  have o: "pct_octet (pct_encode c @ rest) = Some ?n"
    by (simp add: pct_encode_def Let_def hex_val_digit [OF d(1)] hex_val_digit [OF d(2)])
  have s: "pct_sequence (pct_encode c @ rest) = Some [?n]"
    using assms by (simp add: pct_sequence_def o leading_ones_def)
  show ?thesis
    using s by (simp add: pct_encode_def Let_def split: sum.splits)
qed

lemma decode_encode_ascii:
  "\<forall>c \<in> set s. (of_char c :: nat) < 128 \<Longrightarrow>
   decodeURIComponent (encodeURIComponent s) = Inr s"
proof (induction s)
  case Nil
  then show ?case by (simp add: encodeURIComponent_def)
next
  case (Cons c s)
  then have ih: "decodeURIComponent (encodeURIComponent s) = Inr s"
    and c: "(of_char c :: nat) < 128" by simp_all
  have e: "encodeURIComponent (c # s) =
             (if uri_unreserved c then [c] else pct_encode c) @ encodeURIComponent s"
    by (simp add: encodeURIComponent_def)
  show ?case
  proof (cases "uri_unreserved c")
    case True
    with uri_unreserved_not_percent [OF True] ih show ?thesis by (simp add: e)
  next
    case False
    with decode_pct_encode [OF c] ih show ?thesis by (simp add: e)
  qed
qed

lemma reencode_encoded:
  "\<forall>c \<in> set s. (of_char c :: nat) < 128 \<Longrightarrow>
   reencode (encodeURIComponent s) = Inr (encodeURIComponent s)"
  by (simp add: reencode_def decode_encode_ascii)

lemma decode_unreserved:
  "\<forall>c \<in> set s. c \<noteq> CHR ''%'' \<Longrightarrow> decodeURIComponent s = Inr s"
  by (induction s) auto

lemma reencode_plain:
  "\<forall>c \<in> set s. c \<noteq> CHR ''%'' \<Longrightarrow> reencode s = Inr (encodeURIComponent s)"
  by (simp add: reencode_def decode_unreserved)

lemmas url_defs =
  getOptimizedImageUrl_def split_def render_url_def reencode_def
  encodeURIComponent_def uri_unreserved_def pct_encode_def pct_sequence_def hex_val_def
  leading_ones_def params_toString_def build_params_def
  number_param_def string_param_def number_toString_def form_encode_def
  form_unreserved_def char_of_def bit_0

section \<open>Properties of the image URL transform\<close>

text \<open>
  C7. The url \<^verbatim>\<open>https://X.supabase.co/storage/v1/object/public/b/p.jpg\<close> with the
  options \<^verbatim>\<open>{width: 640, format: 'webp'}\<close> becomes
  \<^verbatim>\<open>https://X.supabase.co/storage/v1/render/image/public/b/p.jpg?width=640&format=webp\<close>:
  the object path is rewritten to the render path, and only the supplied options are
  query parameters. Each segment is decoded, then encoded: in
  \<^verbatim>\<open>my bucket/a%20b/caf%c3%a9 1.jpg\<close> the spaces are escaped, the escape
  \<^verbatim>\<open>%20\<close> is kept and not escaped again, and the escapes \<^verbatim>\<open>%c3%a9\<close> come
  back in capitals. The parameters come in the order width, height, quality, format,
  resize, and without options there is no query string.
\<close>

theorem getOptimizedImageUrl_render_example:
  "getOptimizedImageUrl (Some ''https://X.supabase.co/storage/v1/object/public/b/p.jpg'')
     \<lparr>width = Some 640, height = None, quality = None, format = Some Webp, resize = None\<rparr>
   = Inr ''https://X.supabase.co/storage/v1/render/image/public/b/p.jpg?width=640&format=webp''
   \<and> getOptimizedImageUrl
     (Some ''https://X.supabase.co/storage/v1/object/public/my bucket/a%20b/caf%c3%a9 1.jpg'')
     \<lparr>width = Some 640, height = None, quality = None, format = Some Webp, resize = None\<rparr>
   = Inr ''https://X.supabase.co/storage/v1/render/image/public/my%20bucket/a%20b/caf%C3%A9%201.jpg?width=640&format=webp''
   \<and> getOptimizedImageUrl (Some ''https://X.supabase.co/storage/v1/object/public/b/p.jpg'')
     \<lparr>width = Some 480, height = Some 320, quality = Some 85, format = Some Webp,
      resize = Some Cover\<rparr>
   = Inr ''https://X.supabase.co/storage/v1/render/image/public/b/p.jpg?width=480&height=320&quality=85&format=webp&resize=cover''
   \<and> getOptimizedImageUrl (Some ''https://X.supabase.co/storage/v1/object/public/b/p.jpg'')
     \<lparr>width = None, height = None, quality = None, format = None, resize = None\<rparr>
   = Inr ''https://X.supabase.co/storage/v1/render/image/public/b/p.jpg''"
  by (simp add: url_defs)




section \<open>Properties of the local stores\<close>

text \<open>
  C1. Round trip. On an operational store, for every list \<open>S\<close> of records with valid
  and pairwise different ids, \<^verbatim>\<open>saveAllEvents(S)\<close> followed by
  \<^verbatim>\<open>getAllEvents()\<close> returns an array with the elements of \<open>S\<close> and of the same
  length, in some order.
\<close>

theorem saveAllEvents_getAllEvents_roundtrip:
  assumes "operational st"
    and "\<forall>e \<in> set S. extract_key e \<noteq> None"
    and "distinct (map extract_key S)"
  shows "\<exists>xs. fst (getAllEvents (snd (saveAllEvents (JArr S) st))) = Inr (JArr xs)
              \<and> set xs = set S \<and> length xs = length S"
proof -
  from put_all_fresh [OF assms(2,3), of "[]"] obtain s where
    s: "put_all S [] = (Inr (), s)" "snd ` set s = set S" "length s = length S"
    by auto
  have "fst (getAllEvents (snd (saveAllEvents (JArr S) st))) = Inr (JArr (store_getAll s))"
    using saveAllEvents_store [OF assms(1) s(1)] by (simp add: getAllEvents_operational)
  then show ?thesis
    using s by (auto simp: store_getAll_def)
qed

theorem saveAllEvents_getAllEvents_roundtrip_witness:
  "operational sample_browser
   \<and> list_all (\<lambda>e. extract_key e \<noteq> None) sample_events
   \<and> distinct (map extract_key sample_events)
   \<and> (\<exists>xs. fst (getAllEvents (snd (saveAllEvents (JArr sample_events) sample_browser)))
               = Inr (JArr xs)
            \<and> set xs = set sample_events \<and> length xs = length sample_events)"
proof -
  have h1: "operational sample_browser"
    by (simp add: operational_def sample_defs)
  have h2: "\<forall>e \<in> set sample_events. extract_key e \<noteq> None"
    by (simp add: sample_defs obj_get_def)
  have h3: "distinct (map extract_key sample_events)"
    by (simp add: sample_defs obj_get_def)
  from h2 have h2': "list_all (\<lambda>e. extract_key e \<noteq> None) sample_events"
    by (simp add: list_all_iff)
  from saveAllEvents_getAllEvents_roundtrip [OF h1 h2 h3] h1 h2' h3
  show ?thesis by blast
qed

text \<open>
  C2. The legacy cache never carries embedded media. On an operational store,
  \<^verbatim>\<open>saveAllEvents\<close> called with event records returns, and the array it was given
  has been written to \<^verbatim>\<open>localStorage\<close> record by
  record in its stripped form: no cover image and no media url of the stored array starts
  with \<^verbatim>\<open>data:\<close>, an embedded-encoded cover image has become the empty string, and
  the media items with an embedded-encoded url have been filtered out.
\<close>

theorem saveAllEvents_legacy_cache_stripped:
  assumes "operational st" and "\<forall>e \<in> set es. event_record e"
  shows "\<exists>st' ls. saveAllEvents (JArr es) st = (Inr (), st')
           \<and> churchEvents st' = Some (JsonText (JArr ls))
           \<and> length ls = length es \<and> (\<forall>i < length es. stripped (es ! i) (ls ! i))"
proof -
  from saveAllEvents_event_records [OF assms] obtain st' where
    s: "saveAllEvents (JArr es) st = (Inr (), st')" by blast
  from saveAllEvents_writes_stripped [OF s] s show ?thesis by auto
qed

theorem saveAllEvents_legacy_cache_stripped_witness:
  "operational sample_browser \<and> list_all event_record sample_events
   \<and> embedded (prop_of (sample_events ! 0) ''image'')
   \<and> (\<exists>st' ls. saveAllEvents (JArr sample_events) sample_browser = (Inr (), st')
           \<and> churchEvents st' = Some (JsonText (JArr ls))
           \<and> length ls = length sample_events
           \<and> (\<forall>i < length sample_events. stripped (sample_events ! i) (ls ! i)))"
proof -
  have h1: "operational sample_browser"
    by (simp add: operational_def sample_defs)
  have h2: "\<forall>e \<in> set sample_events. event_record e"
    by (simp add: sample_defs event_record_def prop_of_def obj_get_def)
  have h3: "embedded (prop_of (sample_events ! 0) ''image'')"
    by (simp add: sample_defs prop_of_def obj_get_def)
  from h2 have h2': "list_all event_record sample_events"
    by (simp add: list_all_iff)
  from saveAllEvents_legacy_cache_stripped [OF h1 h2] h1 h2' h3 show ?thesis by blast
qed

text \<open>
  C9. \<^verbatim>\<open>getAllEvents\<close> is meant never to throw, falling back to the legacy cache
  on a store fault. It does throw: when the database does not open and the legacy cache
  holds a text that is not JSON, the \<^verbatim>\<open>JSON.parse\<close> of the catch block throws a
  \<open>SyntaxError\<close>; and when the \<^verbatim>\<open>getAll\<close> request fails, the rejection of the
  promise that was returned without \<^verbatim>\<open>await\<close> reaches the caller although the
  legacy cache is readable.
\<close>

theorem getAllEvents_throws:
  "fst (getAllEvents \<lparr>db = False, open_ok = False, tx_ok = True, req_ok = True,
      events_store = [], churchEvents = Some Malformed\<rparr>) = Inl SyntaxError
   \<and> fst (getAllEvents \<lparr>db = True, open_ok = True, tx_ok = True, req_ok = False,
      events_store = [], churchEvents = Some (JsonText (JArr []))\<rparr>) = Inl RequestError"
  by (simp add: getAllEvents_def initDB_def legacy_read_def)

section \<open>Properties of the migration\<close>

text \<open>
  C6. Idempotent migration. Running the migration twice leaves the store with the same
  content as running it once, provided the first run left the legacy cache as it
  found it. The routine itself rewrites the legacy cache with the stripped copy of what
  it read.
\<close>

theorem migrateFromLocalStorage_twice:
  assumes "churchEvents (migrateFromLocalStorage st) = churchEvents st"
  shows "events_store (migrateFromLocalStorage (migrateFromLocalStorage st))
         = events_store (migrateFromLocalStorage st)"
proof (cases "churchEvents st")
  case None
  then show ?thesis by (simp add: migrateFromLocalStorage_def)
next
  case (Some stored)
  show ?thesis
  proof (cases stored)
    case (JsonText v)
    with Some have m: "migrateFromLocalStorage st = snd (saveAllEvents v st)"
      by (simp add: migrateFromLocalStorage_def)
    from assms Some JsonText
    have "migrateFromLocalStorage (migrateFromLocalStorage st)
          = snd (saveAllEvents v (migrateFromLocalStorage st))"
      by (simp add: migrateFromLocalStorage_def [of "migrateFromLocalStorage st"])
    then show ?thesis by (simp add: m saveAllEvents_idempotent)
  qed (use Some in \<open>simp_all add: migrateFromLocalStorage_def\<close>)
qed

theorem migrateFromLocalStorage_twice_witness:
  "churchEvents (migrateFromLocalStorage
      (sample_browser\<lparr>churchEvents := Some (JsonText (JArr
         [JObj [(''id'', JStr ''evt-1''), (''title'', JStr ''Picnic''),
                (''image'', JStr ''https://example.com/p.jpg''), (''media'', JArr [])]]))\<rparr>))
   = churchEvents
      (sample_browser\<lparr>churchEvents := Some (JsonText (JArr
         [JObj [(''id'', JStr ''evt-1''), (''title'', JStr ''Picnic''),
                (''image'', JStr ''https://example.com/p.jpg''), (''media'', JArr [])]]))\<rparr>)
   \<and> events_store (migrateFromLocalStorage (migrateFromLocalStorage
      (sample_browser\<lparr>churchEvents := Some (JsonText (JArr
         [JObj [(''id'', JStr ''evt-1''), (''title'', JStr ''Picnic''),
                (''image'', JStr ''https://example.com/p.jpg''), (''media'', JArr [])]]))\<rparr>)))
   = [(KStr ''evt-1'', JObj [(''id'', JStr ''evt-1''), (''title'', JStr ''Picnic''),
                (''image'', JStr ''https://example.com/p.jpg''), (''media'', JArr [])])]"
proof -
  let ?st = "sample_browser\<lparr>churchEvents := Some (JsonText (JArr
         [JObj [(''id'', JStr ''evt-1''), (''title'', JStr ''Picnic''),
                (''image'', JStr ''https://example.com/p.jpg''), (''media'', JArr [])]]))\<rparr>"
  have h: "churchEvents (migrateFromLocalStorage ?st) = churchEvents ?st"
    by (simp add: sample_defs run_defs)
  have one: "events_store (migrateFromLocalStorage ?st)
     = [(KStr ''evt-1'', JObj [(''id'', JStr ''evt-1''), (''title'', JStr ''Picnic''),
                (''image'', JStr ''https://example.com/p.jpg''), (''media'', JArr [])])]"
    by (simp add: sample_defs run_defs)
  from migrateFromLocalStorage_twice [OF h] h one show ?thesis by simp
qed

text \<open>
  Without that proviso the property fails: from a legacy cache that holds one record
  without \<^verbatim>\<open>media\<close>, the first run stores the record as it is and writes it back
  with \<^verbatim>\<open>media: []\<close>, which the second run stores.
\<close>

theorem migrateFromLocalStorage_twice_counterexample:
  "events_store (migrateFromLocalStorage (migrateFromLocalStorage
     \<lparr>db = False, open_ok = True, tx_ok = True, req_ok = True, events_store = [],
      churchEvents = Some (JsonText (JArr [JObj [(''id'', JStr ''a'')]]))\<rparr>))
   \<noteq> events_store (migrateFromLocalStorage
     \<lparr>db = False, open_ok = True, tx_ok = True, req_ok = True, events_store = [],
      churchEvents = Some (JsonText (JArr [JObj [(''id'', JStr ''a'')]]))\<rparr>)
   \<and> events_store (migrateFromLocalStorage
     \<lparr>db = False, open_ok = True, tx_ok = True, req_ok = True, events_store = [],
      churchEvents = Some (JsonText (JArr [JObj [(''id'', JStr ''a'')]]))\<rparr>)
     = [(KStr ''a'', JObj [(''id'', JStr ''a'')])]
   \<and> events_store (migrateFromLocalStorage (migrateFromLocalStorage
     \<lparr>db = False, open_ok = True, tx_ok = True, req_ok = True, events_store = [],
      churchEvents = Some (JsonText (JArr [JObj [(''id'', JStr ''a'')]]))\<rparr>))
     = [(KStr ''a'', JObj [(''id'', JStr ''a''), (''media'', JArr [])])]"
  by (simp add: run_defs)

section \<open>Properties of the remote sync\<close>

text \<open>
  C3. Fallback on remote failure. With an operational store, when the GET of the events
  is rejected or answered with a status that is not ok, \<^verbatim>\<open>syncEventsWithSupabase\<close>
  returns the records of the store, the same result as \<^verbatim>\<open>getAllEvents\<close>, without
  throwing, and leaves the store as it was.
\<close>

theorem syncEventsWithSupabase_remote_failure:
  assumes "operational st" and "remote_failed r"
  shows "fst (syncEventsWithSupabase r st) = Inr (JArr (store_getAll (events_store st)))
       \<and> fst (syncEventsWithSupabase r st) = fst (getAllEvents st)
       \<and> events_store (snd (syncEventsWithSupabase r st)) = events_store st"
  using assms
  by (cases r) (simp_all add: syncEventsWithSupabase_def getAllEvents_operational)

theorem syncEventsWithSupabase_remote_failure_witness:
  "operational sample_browser \<and> remote_failed (Response 500 None)
   \<and> fst (syncEventsWithSupabase (Response 500 None) sample_browser)
       = Inr (JArr [JObj [(''id'', JStr ''evt-0''), (''title'', JStr ''Vigil'')]])"
proof -
  have h1: "operational sample_browser"
    by (simp add: operational_def sample_defs)
  have h2: "remote_failed (Response 500 None)"
    by (simp add: response_ok_def)
  have "store_getAll (events_store sample_browser)
        = [JObj [(''id'', JStr ''evt-0''), (''title'', JStr ''Vigil'')]]"
    by (simp add: store_getAll_def sample_defs)
  with syncEventsWithSupabase_remote_failure [OF h1 h2] h1 h2
  show ?thesis by simp
qed

text \<open>
  C4. Delete always local. With an operational store, whatever the outcome of the remote
  DELETE, \<^verbatim>\<open>deleteEventWithSync(id)\<close> returns and the store it leaves is the old one
  without the record of key \<open>id\<close>.
\<close>

theorem deleteEventWithSync_removes_locally:
  assumes "operational st"
  shows "fst (deleteEventWithSync r eventId st) = Inr ()
       \<and> events_store (snd (deleteEventWithSync r eventId st))
           = store_delete (KStr eventId) (events_store st)
       \<and> KStr eventId \<notin> fst ` set (events_store (snd (deleteEventWithSync r eventId st)))"
proof -
  have d: "deleteEvent eventId st =
      (Inr (), st\<lparr>db := True, events_store := store_delete (KStr eventId) (events_store st)\<rparr>)"
    using assms by (simp add: deleteEvent_def initDB_operational) (simp add: operational_def)
  show ?thesis
    by (cases r) (auto simp: deleteEventWithSync_def d store_delete_def)
qed

theorem deleteEventWithSync_removes_locally_witness:
  "operational sample_browser
   \<and> KStr ''evt-0'' \<in> fst ` set (events_store sample_browser)
   \<and> fst (deleteEventWithSync (Response 500 None) ''evt-0'' sample_browser) = Inr ()
   \<and> KStr ''evt-0'' \<notin> fst ` set (events_store
         (snd (deleteEventWithSync (Response 500 None) ''evt-0'' sample_browser)))
   \<and> KStr ''evt-0'' \<notin> fst ` set (events_store
         (snd (deleteEventWithSync (Response 200 None) ''evt-0'' sample_browser)))"
proof -
  have h1: "operational sample_browser"
    by (simp add: operational_def sample_defs)
  have h2: "KStr ''evt-0'' \<in> fst ` set (events_store sample_browser)"
    by (simp add: sample_defs)
  from deleteEventWithSync_removes_locally [OF h1, of "Response 500 None" "''evt-0''"]
    deleteEventWithSync_removes_locally [OF h1, of "Response 200 None" "''evt-0''"] h1 h2
  show ?thesis by blast
qed

text \<open>
  C5. Synthesized create has the required fields. When the remote create fails, the store
  is operational and holds event records, and the event data is an event record's data
  that carries none of \<^verbatim>\<open>id\<close>, \<^verbatim>\<open>createdAt\<close>, \<^verbatim>\<open>updatedAt\<close>,
  \<^verbatim>\<open>createEventWithSync\<close> returns a record whose id is the generated one, not
  empty, and whose \<^verbatim>\<open>createdAt\<close> and \<^verbatim>\<open>updatedAt\<close> are both the time of the
  call.
\<close>

theorem createEventWithSync_local_record:
  assumes "remote_failed r" and "operational st"
    and "\<forall>e \<in> set (store_getAll (events_store st)). event_record e"
    and "distinct (map fst props)"
    and "''id'' \<notin> fst ` set props"
    and "''createdAt'' \<notin> fst ` set props"
    and "''updatedAt'' \<notin> fst ` set props"
    and "media_ok (obj_get props ''media'')" and "image_ok (obj_get props ''image'')"
    and "uuid \<noteq> []"
  shows "\<exists>ev st'. createEventWithSync r uuid now (JObj props) st = (Inr ev, st')
           \<and> prop_of ev ''id'' = JStr uuid \<and> prop_of ev ''id'' \<noteq> JStr []
           \<and> prop_of ev ''createdAt'' = JStr now \<and> prop_of ev ''updatedAt'' = JStr now"
proof -
  let ?gen = "[(''id'', JStr uuid), (''createdAt'', JStr now), (''updatedAt'', JStr now)]"
  let ?ev = "JObj (spread_into ?gen props)"
  have g: "obj_get (spread_into ?gen props) k =
             (if k \<in> fst ` set props then obj_get props k else obj_get ?gen k)" for k
    by (rule obj_get_spread_into [OF assms(4)])
  have absent: "k \<notin> fst ` set props \<Longrightarrow> obj_get props k = JUndefined" for k
    by (simp add: obj_get_def map_of_eq_None_iff [THEN iffD2])
  have id: "prop_of ?ev ''id'' = JStr uuid"
    and cr: "prop_of ?ev ''createdAt'' = JStr now"
    and up: "prop_of ?ev ''updatedAt'' = JStr now"
    using assms(5-7) by (simp_all add: prop_of_def g) (simp_all add: obj_get_def)
  have med: "prop_of ?ev ''media'' = obj_get props ''media''"
    and img: "prop_of ?ev ''image'' = obj_get props ''image''"
    using absent [of "''media''"] absent [of "''image''"]
    by (simp_all add: prop_of_def g) (simp_all add: obj_get_def)
  have rec: "event_record ?ev"
    using id med img assms(8,9) by (simp add: event_record_def prop_of_def)
  have "\<forall>e \<in> set (store_getAll (events_store st) @ [?ev]). event_record e"
    using assms(3) rec by simp
  from saveAllEvents_event_records [OF _ this, of "st\<lparr>db := True\<rparr>"] assms(2)
  obtain st' where
    "saveAllEvents (JArr (store_getAll (events_store st) @ [?ev])) (st\<lparr>db := True\<rparr>) = (Inr (), st')"
    by (auto simp: operational_def)
  then have "createEventWithSync r uuid now (JObj props) st = (Inr ?ev, st')"
    using assms(1,2)
    by (simp add: createEventWithSync_remote_failed local_create_def append_and_save_def
        getAllEvents_operational)
  with id cr up assms(10) show ?thesis by simp
qed

theorem createEventWithSync_local_record_witness:
  "remote_failed (Response 500 None) \<and> operational sample_browser
   \<and> list_all event_record (store_getAll (events_store sample_browser))
   \<and> distinct (map fst [(''title'', JStr ''Picnic''), (''media'', JArr [])])
   \<and> ''id'' \<notin> fst ` set [(''title'', JStr ''Picnic''), (''media'', JArr [])]
   \<and> ''createdAt'' \<notin> fst ` set [(''title'', JStr ''Picnic''), (''media'', JArr [])]
   \<and> ''updatedAt'' \<notin> fst ` set [(''title'', JStr ''Picnic''), (''media'', JArr [])]
   \<and> media_ok (obj_get [(''title'', JStr ''Picnic''), (''media'', JArr [])] ''media'')
   \<and> image_ok (obj_get [(''title'', JStr ''Picnic''), (''media'', JArr [])] ''image'')
   \<and> ''3f0c2a'' \<noteq> []
   \<and> (\<exists>ev st'. createEventWithSync (Response 500 None) ''3f0c2a'' ''2026-01-16T10:00:00.000Z''
                   (JObj [(''title'', JStr ''Picnic''), (''media'', JArr [])]) sample_browser
                 = (Inr ev, st')
          \<and> prop_of ev ''id'' = JStr ''3f0c2a'' \<and> prop_of ev ''id'' \<noteq> JStr []
          \<and> prop_of ev ''createdAt'' = JStr ''2026-01-16T10:00:00.000Z''
          \<and> prop_of ev ''updatedAt'' = JStr ''2026-01-16T10:00:00.000Z'')"
proof -
  let ?props = "[(''title'', JStr ''Picnic''), (''media'', JArr [])]"
  have h1: "remote_failed (Response 500 None)"
    by (simp add: response_ok_def)
  have h2: "operational sample_browser"
    by (simp add: operational_def sample_defs)
  have h3: "\<forall>e \<in> set (store_getAll (events_store sample_browser)). event_record e"
    by (simp add: store_getAll_def sample_defs event_record_def prop_of_def obj_get_def)
  have h4: "distinct (map fst ?props)" by simp
  have h5: "''id'' \<notin> fst ` set ?props" by simp
  have h6: "''createdAt'' \<notin> fst ` set ?props" by simp
  have h7: "''updatedAt'' \<notin> fst ` set ?props" by simp
  have h8: "media_ok (obj_get ?props ''media'')" by (simp add: obj_get_def)
  have h9: "image_ok (obj_get ?props ''image'')" by (simp add: obj_get_def)
  have h10: "''3f0c2a'' \<noteq> []" by simp
  from h3 have h3': "list_all event_record (store_getAll (events_store sample_browser))"
    by (simp add: list_all_iff)
  from createEventWithSync_local_record [OF h1 h2 h3 h4 h5 h6 h7 h8 h9 h10,
      of "''2026-01-16T10:00:00.000Z''"]
    h1 h2 h3' h4 h5 h6 h7 h8 h9 h10
  show ?thesis by blast
qed

text \<open>
  For event data that carries the keys the property fails: with an empty \<^verbatim>\<open>id\<close> and
  a \<^verbatim>\<open>createdAt\<close> of its own, the returned record has the empty id and two different
  timestamps. And when the database does not open, the call throws: the write to the
  local store is not guarded in the fallback.
\<close>

theorem createEventWithSync_synthesized_counterexample:
  "fst (createEventWithSync (Response 500 None) ''3f0c2a'' ''2026-01-16T10:00:00.000Z''
     (JObj [(''title'', JStr ''Picnic''), (''id'', JStr []),
            (''createdAt'', JStr ''2020-01-01T00:00:00.000Z'')])
     \<lparr>db = True, open_ok = True, tx_ok = True, req_ok = True, events_store = [],
      churchEvents = None\<rparr>)
   = Inr (JObj [(''id'', JStr []), (''createdAt'', JStr ''2020-01-01T00:00:00.000Z''),
                (''updatedAt'', JStr ''2026-01-16T10:00:00.000Z''), (''title'', JStr ''Picnic'')])
   \<and> prop_of (JObj [(''id'', JStr []), (''createdAt'', JStr ''2020-01-01T00:00:00.000Z''),
                (''updatedAt'', JStr ''2026-01-16T10:00:00.000Z''), (''title'', JStr ''Picnic'')])
         ''id'' = JStr []
   \<and> prop_of (JObj [(''id'', JStr []), (''createdAt'', JStr ''2020-01-01T00:00:00.000Z''),
                (''updatedAt'', JStr ''2026-01-16T10:00:00.000Z''), (''title'', JStr ''Picnic'')])
         ''createdAt''
     \<noteq> prop_of (JObj [(''id'', JStr []), (''createdAt'', JStr ''2020-01-01T00:00:00.000Z''),
                (''updatedAt'', JStr ''2026-01-16T10:00:00.000Z''), (''title'', JStr ''Picnic'')])
         ''updatedAt''
   \<and> fst (createEventWithSync (Response 500 None) ''3f0c2a'' ''2026-01-16T10:00:00.000Z''
     (JObj [(''title'', JStr ''Picnic'')])
     \<lparr>db = False, open_ok = False, tx_ok = True, req_ok = True, events_store = [],
      churchEvents = None\<rparr>)
   = Inl OpenError"
  by (simp add: run_defs prop_of_def)

text \<open>
  C10. In the local fallback of \<^verbatim>\<open>createEventWithSync\<close> the event data is spread
  after the generated fields: for each of \<^verbatim>\<open>id\<close>, \<^verbatim>\<open>createdAt\<close> and
  \<^verbatim>\<open>updatedAt\<close>, the returned record has the caller's value when the event data
  has the key, and the generated id or the time of the call when it has not; the
  returned record is the one the store holds under its key.
\<close>

theorem createEventWithSync_eventData_overrides:
  assumes "remote_failed r"
    and "createEventWithSync r uuid now (JObj props) st = (Inr ev, st')"
    and "distinct (map fst props)"
  shows "prop_of ev ''id'' = (if ''id'' \<in> fst ` set props then obj_get props ''id'' else JStr uuid)
       \<and> prop_of ev ''createdAt'' =
           (if ''createdAt'' \<in> fst ` set props then obj_get props ''createdAt'' else JStr now)
       \<and> prop_of ev ''updatedAt'' =
           (if ''updatedAt'' \<in> fst ` set props then obj_get props ''updatedAt'' else JStr now)
       \<and> (\<exists>k. extract_key ev = Some k \<and> (k, ev) \<in> set (events_store st'))"
proof -
  from assms(1,2) have "local_create uuid now (JObj props) st = (Inr ev, st')"
    by (simp add: createEventWithSync_remote_failed)
  from local_create_returns [OF this] have
    ev: "ev = JObj (spread_into
                 [(''id'', JStr uuid), (''createdAt'', JStr now), (''updatedAt'', JStr now)] props)"
    and stored: "\<exists>k. extract_key ev = Some k \<and> (k, ev) \<in> set (events_store st')"
    by (simp, blast)
  have "prop_of ev ''id'' = (if ''id'' \<in> fst ` set props then obj_get props ''id'' else JStr uuid)"
    and "prop_of ev ''createdAt'' =
           (if ''createdAt'' \<in> fst ` set props then obj_get props ''createdAt'' else JStr now)"
    and "prop_of ev ''updatedAt'' =
           (if ''updatedAt'' \<in> fst ` set props then obj_get props ''updatedAt'' else JStr now)"
    by (simp_all add: ev prop_of_def obj_get_spread_into [OF assms(3)])
       (simp_all add: obj_get_def)
  with stored show ?thesis by blast
qed

theorem createEventWithSync_eventData_overrides_witness:
  "remote_failed Rejected
   \<and> distinct (map fst [(''title'', JStr ''Picnic''), (''id'', JStr ''mine''),
                        (''createdAt'', JStr ''2020-01-01T00:00:00.000Z'')])
   \<and> (\<exists>ev st'. createEventWithSync Rejected ''3f0c2a'' ''2026-01-16T10:00:00.000Z''
          (JObj [(''title'', JStr ''Picnic''), (''id'', JStr ''mine''),
                 (''createdAt'', JStr ''2020-01-01T00:00:00.000Z'')]) sample_browser = (Inr ev, st')
        \<and> prop_of ev ''id'' = JStr ''mine''
        \<and> prop_of ev ''createdAt'' = JStr ''2020-01-01T00:00:00.000Z''
        \<and> prop_of ev ''updatedAt'' = JStr ''2026-01-16T10:00:00.000Z''
        \<and> (KStr ''mine'', ev) \<in> set (events_store st'))"
proof -
  let ?props = "[(''title'', JStr ''Picnic''), (''id'', JStr ''mine''),
                 (''createdAt'', JStr ''2020-01-01T00:00:00.000Z'')]"
  let ?ev = "JObj [(''id'', JStr ''mine''), (''createdAt'', JStr ''2020-01-01T00:00:00.000Z''),
                   (''updatedAt'', JStr ''2026-01-16T10:00:00.000Z''), (''title'', JStr ''Picnic'')]"
  let ?run = "createEventWithSync Rejected ''3f0c2a'' ''2026-01-16T10:00:00.000Z''
                (JObj ?props) sample_browser"
  have h1: "remote_failed Rejected" by simp
  have "fst ?run = Inr ?ev"
    by (simp add: sample_defs run_defs)
  then have h2: "?run = (Inr ?ev, snd ?run)"
    by (metis prod.collapse)
  have h3: "distinct (map fst ?props)" by simp
  from createEventWithSync_eventData_overrides [OF h1 h2 h3]
  have "prop_of ?ev ''id'' = JStr ''mine''
      \<and> prop_of ?ev ''createdAt'' = JStr ''2020-01-01T00:00:00.000Z''
      \<and> prop_of ?ev ''updatedAt'' = JStr ''2026-01-16T10:00:00.000Z''
      \<and> (KStr ''mine'', ?ev) \<in> set (events_store (snd ?run))"
    by (simp add: obj_get_def)
  with h1 h2 h3 show ?thesis by blast
qed

end
